theory Spec2Isabelle
  imports Complex_Main "HOL-Library.AList"
begin

section \<open>Values of the host language\<close>

text \<open>
  The hook \<open>useSubmitter\<close> of \<open>src/useSubmitter.ts\<close> handles records of form values.
  Only three operations of the language are applied to a value: the truthiness test
  \<open>!v\<close>, the strict comparison \<open>===\<close>, and the tests \<open>typeof v == "string"\<close> and
  \<open>v instanceof File\<close>. A value is therefore a primitive, a \<open>File\<close> object (with the
  four read-only attributes the code reads) or any other object; objects carry the
  address that \<open>===\<close> compares. A finite number is the real it denotes (\<open>+0\<close> and \<open>-0\<close>
  are both \<open>0\<close>: they are \<open>===\<close> and both falsy); \<open>NaN\<close> is a value of its own.
\<close>

type_synonym addr = nat

record file_meta =
  file_name :: string
  file_size :: nat
  file_type :: string
  lastModified :: int

datatype jsval =
    VUndefined
  | VNull
  | VBool bool
  | VNum real
  | VNaN
  | VStr string
  | VFile addr file_meta
  | VObj addr

type_synonym exn = jsval

text \<open>\<open>!v\<close> is true exactly on the falsy values.\<close>

fun truthy :: "jsval \<Rightarrow> bool" where
  "truthy VUndefined = False"
| "truthy VNull = False"
| "truthy (VBool b) = b"
| "truthy (VNum x) = (x \<noteq> 0)"
| "truthy VNaN = False"
| "truthy (VStr s) = (s \<noteq> [])"
| "truthy (VFile a m) = True"
| "truthy (VObj a) = True"

text \<open>\<open>a === b\<close>: primitives by type and value (\<open>NaN\<close> equals nothing), objects by identity.\<close>

fun strict_eq :: "jsval \<Rightarrow> jsval \<Rightarrow> bool" where
  "strict_eq VUndefined VUndefined = True"
| "strict_eq VNull VNull = True"
| "strict_eq (VBool a) (VBool b) = (a = b)"
| "strict_eq (VNum x) (VNum y) = (x = y)"
| "strict_eq (VStr s) (VStr t) = (s = t)"
| "strict_eq (VFile a m) (VFile b n) = (a = b)"
| "strict_eq (VObj a) (VObj b) = (a = b)"
| "strict_eq _ _ = False"

text \<open>\<open>v == undefined\<close>, the loose comparison: true of \<open>undefined\<close> and of \<open>null\<close>.\<close>

fun loose_undefined :: "jsval \<Rightarrow> bool" where
  "loose_undefined VUndefined = True"
| "loose_undefined VNull = True"
| "loose_undefined _ = False"

fun is_string :: "jsval \<Rightarrow> bool" where
  "is_string (VStr s) = True"
| "is_string _ = False"

fun is_file :: "jsval \<Rightarrow> bool" where
  "is_file (VFile a m) = True"
| "is_file _ = False"

text \<open>
  A record of form values (\<open>Record<string, unknown>\<close>) is the list \<open>Object.entries\<close>
  returns for it: its own keys, each once, in the order of the object. \<open>o[k]\<close> is
  \<open>undefined\<close> for a key the object does not have; \<open>o[k] = v\<close> overwrites the entry of
  an existing key and appends a new key at the end, with one exception: for the key
  \<open>__proto__\<close>, when the object has no own entry of that name, the assignment runs the
  setter inherited from \<open>Object.prototype\<close> and adds no entry (it may change the prototype
  of the object, which the list of own entries does not show). The loops below insert keys
  in the order of an object's entries, so the order of the result is that of an object
  again. Reading a member inherited from \<open>Object.prototype\<close> is left out: \<open>o[k]\<close> on an
  object with no own entry \<open>k\<close> is \<open>undefined\<close> here also when \<open>k\<close> names such a member
  (\<open>constructor\<close>, \<open>toString\<close>, \<open>__proto__\<close>). For \<open>is_same_values\<close> the answer is the
  same as long as no value of a form is itself one of these members: the inherited value is
  an object, identical to no other value, and the comparison is false as it is for
  \<open>undefined\<close>. \<open>mutate_data\<close> reads \<open>data[key]\<close> at the keys of the default values; no
  key of the default values is taken to be the name of such a member.
\<close>

type_synonym obj = "(string \<times> jsval) list"

definition obj_get :: "obj \<Rightarrow> string \<Rightarrow> jsval" where
  "obj_get ob k = (case map_of ob k of None \<Rightarrow> VUndefined | Some v \<Rightarrow> v)"

definition obj_set :: "obj \<Rightarrow> string \<Rightarrow> jsval \<Rightarrow> obj" where
  "obj_set ob k v =
     (if k = ''__proto__'' \<and> k \<notin> fst ` set ob then ob else AList.update k v ob)"

text \<open>A \<open>FormData\<close> is the list of the \<open>append(key, value)\<close> calls made on it.\<close>

type_synonym form_data = "(string \<times> jsval) list"

section \<open>The helpers: comparing with the defaults\<close>

text \<open>\<open>is_same_files\<close>: four attributes compared with \<open>===\<close>.\<close>

definition is_same_files :: "file_meta \<Rightarrow> file_meta \<Rightarrow> bool" where
  "is_same_files file default_file \<longleftrightarrow>
     file_name file = file_name default_file \<and>
     file_size file = file_size default_file \<and>
     file_type file = file_type default_file \<and>
     lastModified file = lastModified default_file"

definition is_same_values :: "jsval \<Rightarrow> jsval \<Rightarrow> bool" where
  "is_same_values val default_value =
     (if \<not> truthy default_value then False
      else (case val of
              VFile a m \<Rightarrow>
                (case default_value of
                   VFile b n \<Rightarrow> is_same_files m n
                 | _ \<Rightarrow> False)
            | _ \<Rightarrow> strict_eq val default_value))"

text \<open>
  \<open>without_defaults\<close>: the loop over \<open>Object.entries(values)\<close> fills \<open>submit_values\<close>,
  which starts empty.
\<close>

fun without_defaults_loop :: "(string \<times> jsval) list \<Rightarrow> obj \<Rightarrow> obj \<Rightarrow> obj" where
  "without_defaults_loop [] defaultValues submit_values = submit_values"
| "without_defaults_loop ((key, val) # rest) defaultValues submit_values =
     (if \<not> is_same_values val (obj_get defaultValues key)
      then without_defaults_loop rest defaultValues (obj_set submit_values key val)
      else without_defaults_loop rest defaultValues submit_values)"

definition without_defaults :: "obj \<Rightarrow> obj option \<Rightarrow> obj" where
  "without_defaults vals defaultValues =
     (case defaultValues of
        None \<Rightarrow> vals
      | Some d \<Rightarrow> without_defaults_loop vals d [])"

text \<open>
  \<open>to_form_data_without_default\<close>. \<open>JSON.stringify\<close> belongs to the platform and is a
  parameter: it returns a string, or \<open>undefined\<close>, or throws (a cyclic object, a
  \<open>BigInt\<close>). An exception leaves the loop at once.
\<close>

fun to_form_data_loop ::
  "(jsval \<Rightarrow> exn + jsval) \<Rightarrow> (string \<times> jsval) list \<Rightarrow> obj option \<Rightarrow> form_data
     \<Rightarrow> exn + form_data" where
  "to_form_data_loop stringify [] default_data form_data = Inr form_data"
| "to_form_data_loop stringify ((key, val) # rest) default_data form_data =
     (if (case default_data of
            None \<Rightarrow> True
          | Some d \<Rightarrow> \<not> is_same_values val (obj_get d key))
      then (case (if is_string val \<or> is_file val then Inr val else stringify val) of
              Inl e \<Rightarrow> Inl e
            | Inr form_value \<Rightarrow>
                to_form_data_loop stringify rest default_data (form_data @ [(key, form_value)]))
      else to_form_data_loop stringify rest default_data form_data)"

definition to_form_data_without_default ::
  "(jsval \<Rightarrow> exn + jsval) \<Rightarrow> obj \<Rightarrow> obj option \<Rightarrow> exn + form_data" where
  "to_form_data_without_default stringify data default_data =
     to_form_data_loop stringify data default_data []"

text \<open>
  The equality of the specification, in its words: two file-like values are equal when
  they agree on name, size, type and last-modified time; any other two values are equal
  when they are strictly identical.
\<close>

definition spec_equal :: "jsval \<Rightarrow> jsval \<Rightarrow> bool" where
  "spec_equal v d =
     (case (v, d) of
        (VFile a m, VFile b n) \<Rightarrow>
          file_name m = file_name n \<and> file_size m = file_size n \<and>
          file_type m = file_type n \<and> lastModified m = lastModified n
      | _ \<Rightarrow> strict_eq v d)"

text \<open>The entries the specification keeps in the diff against a baseline \<open>d\<close>.\<close>

definition spec_changed :: "obj \<Rightarrow> string \<times> jsval \<Rightarrow> bool" where
  "spec_changed d kv = (\<not> (truthy (obj_get d (fst kv)) \<and> spec_equal (snd kv) (obj_get d (fst kv))))"

section \<open>The platform, the options and what a call does\<close>

text \<open>
  \<open>confirm\<close>, \<open>fetch\<close> and \<open>JSON.stringify\<close> are the platform's. \<open>fetch\<close> resolves
  with a response or rejects; the code guards the response with \<open>response && response.ok\<close>,
  so a transport that resolves with nothing (\<open>None\<close>) is an input too.
\<close>

record response =
  ok :: bool
  status :: nat

datatype init_value = Payload form_data | Plain jsval

type_synonym request_init = "(string \<times> init_value) list"

record platform =
  confirm :: "string \<Rightarrow> bool"
  fetch :: "string \<Rightarrow> request_init \<Rightarrow> exn + response option"
  JSON_stringify :: "jsval \<Rightarrow> exn + jsval"

text \<open>
  The first argument of the hook: \<open>typeof destination == "string"\<close> or a function that
  returns (or resolves with) a boolean, or throws (or rejects).
\<close>

datatype destination =
    Endpoint string
  | Action "obj \<Rightarrow> exn + bool"

text \<open>
  The argument \<open>mutate\<close> is called with: the transformed data, or, in the version with
  \<open>reset\<close>, the caller's object of default values itself, named by its address.
\<close>

datatype mutate_arg = TransformedData obj | StoredObject addr

text \<open>What a call does that its caller can observe, in order.\<close>

datatype event =
    PreventDefault
  | Transform obj
  | Prompt string
  | Fetch string request_init
  | Destination obj
  | OnSuccess obj "response option"
  | OnFailure obj "response option"
  | OnError exn
  | Mutate mutate_arg
  | Reset "obj option"

text \<open>
  The options. A callback returns \<open>None\<close> when it returns, \<open>Some e\<close> when it throws
  \<open>e\<close>. The options both versions of the file have under one name come first.
\<close>

record params =
  "method" :: "string option"
  transform :: "(obj \<Rightarrow> exn + obj) option"
  confirmation :: "string option"
  mutate :: "(obj \<Rightarrow> exn option) option"

record UseSubmitterParams = params +
  defaultValues :: "obj option"
  onSuccess :: "(obj \<Rightarrow> response option \<Rightarrow> exn option) option"
  onFailure :: "(obj \<Rightarrow> response option \<Rightarrow> exn option) option"
  onError :: "(exn \<Rightarrow> exn option) option"
  fetchOptions :: "obj option"

text \<open>The promise \<open>submitter\<close> returns.\<close>

datatype outcome = Resolved | Rejected exn

text \<open>The local variables \<open>submitOk\<close> and \<open>response\<close>.\<close>

record locals =
  submitOk :: bool
  response :: "response option"

text \<open>What a call leaves: its promise, the flag \<open>isFailed\<close>, and its events.\<close>

record settled =
  promise :: outcome
  isFailed :: bool
  trace :: "event list"

text \<open>\<open>if (cb) cb(...)\<close>: the callback, when there is one, is called and may throw.\<close>

definition invoke :: "('f \<Rightarrow> exn option) \<Rightarrow> 'f option \<Rightarrow> event \<Rightarrow> exn option \<times> event list" where
  "invoke app cb ev = (case cb of None \<Rightarrow> (None, []) | Some f \<Rightarrow> (app f, [ev]))"

text \<open>
  \<open>{ method, body: formData, ...fetchOptions }\<close>: the own entries of \<open>fetchOptions\<close> are
  written over the two constructed ones. \<open>method\<close> is \<open>"POST"\<close> when the option is absent.
\<close>

definition spread :: "request_init \<Rightarrow> obj option \<Rightarrow> request_init" where
  "spread init opts =
     (case opts of
        None \<Rightarrow> init
      | Some fo \<Rightarrow> foldl (\<lambda>acc kv. AList.update (fst kv) (Plain (snd kv)) acc) init fo)"

definition fetch_init :: "string option \<Rightarrow> form_data \<Rightarrow> obj option \<Rightarrow> request_init" where
  "fetch_init m formData opts =
     spread [(''method'', Plain (VStr (case m of None \<Rightarrow> ''POST'' | Some x \<Rightarrow> x))),
             (''body'', Payload formData)] opts"

text \<open>
  The two branches on \<open>typeof destination\<close> at the head of the \<open>try\<close> block, the same
  in both versions: the exception thrown (if any), the locals, the events.
\<close>

definition dispatch ::
  "platform \<Rightarrow> destination \<Rightarrow> string option \<Rightarrow> obj option \<Rightarrow> obj option \<Rightarrow> obj
     \<Rightarrow> exn option \<times> locals \<times> event list" where
  "dispatch env dest m opts defaults transformedData =
     (let l0 = \<lparr>submitOk = False, response = None\<rparr> in
      case dest of
        Endpoint url \<Rightarrow>
          (case to_form_data_without_default (JSON_stringify env) transformedData defaults of
             Inl e \<Rightarrow> (Some e, l0, [])
           | Inr formData \<Rightarrow>
               (let init = fetch_init m formData opts in
                case fetch env url init of
                  Inl e \<Rightarrow> (Some e, l0, [Fetch url init])
                | Inr r \<Rightarrow>
                    (None,
                     \<lparr>submitOk = (case r of None \<Rightarrow> False | Some x \<Rightarrow> ok x), response = r\<rparr>,
                     [Fetch url init])))
      | Action f \<Rightarrow>
          (let diff = without_defaults transformedData defaults in
           case f diff of
             Inl e \<Rightarrow> (Some e, l0, [Destination diff])
           | Inr b \<Rightarrow> (None, l0\<lparr>submitOk := b\<rparr>, [Destination diff])))"

text \<open>The \<open>try\<close> block of the first version: the dispatch, then \<open>onFailure\<close>.\<close>

definition try_block ::
  "platform \<Rightarrow> destination \<Rightarrow> UseSubmitterParams \<Rightarrow> obj \<Rightarrow> exn option \<times> locals \<times> event list" where
  "try_block env dest c transformedData =
     (case dispatch env dest (method c) (fetchOptions c) (defaultValues c) transformedData of
        (Some e, l, evs) \<Rightarrow> (Some e, l, evs)
      | (None, l, evs) \<Rightarrow>
          (if \<not> submitOk l
           then (case invoke (\<lambda>f. f transformedData (response l)) (onFailure c)
                        (OnFailure transformedData (response l)) of
                   (thrown, evs') \<Rightarrow> (thrown, l, evs @ evs'))
           else (None, l, evs)))"

text \<open>The \<open>catch\<close> block: \<open>if (onError) onError(e)\<close>.\<close>

definition catch_block :: "(exn \<Rightarrow> exn option) option \<Rightarrow> exn \<Rightarrow> exn option \<times> event list" where
  "catch_block handler e = invoke (\<lambda>f. f e) handler (OnError e)"

text \<open>
  The \<open>finally\<close> block of the first version: the exception it throws (if any), the flag
  it sets, its events.
\<close>

definition finally_block ::
  "UseSubmitterParams \<Rightarrow> obj \<Rightarrow> locals \<Rightarrow> exn option \<times> bool \<times> event list" where
  "finally_block c transformedData l =
     (if submitOk l
      then (case invoke (\<lambda>f. f transformedData (response l)) (onSuccess c)
                   (OnSuccess transformedData (response l)) of
              (Some e, evs) \<Rightarrow> (Some e, False, evs)
            | (None, evs) \<Rightarrow>
                (case invoke (\<lambda>f. f transformedData) (mutate c)
                        (Mutate (TransformedData transformedData)) of
                   (thrown, evs') \<Rightarrow> (thrown, False, evs @ evs')))
      else (None, True, []))"

text \<open>\<open>transform ? transform(data) : data\<close>, before the \<open>try\<close> block.\<close>

definition apply_transform :: "(obj \<Rightarrow> exn + obj) option \<Rightarrow> obj \<Rightarrow> (exn + obj) \<times> event list" where
  "apply_transform t data =
     (case t of None \<Rightarrow> (Inr data, []) | Some f \<Rightarrow> (f data, [Transform data]))"

text \<open>\<open>confirmation && !confirm(confirmation)\<close>: an empty message is falsy and asks nothing.\<close>

definition declined :: "platform \<Rightarrow> string option \<Rightarrow> bool \<times> event list" where
  "declined env msg =
     (case msg of
        None \<Rightarrow> (False, [])
      | Some m \<Rightarrow> (if m = [] then (False, []) else (\<not> confirm env m, [Prompt m])))"

text \<open>
  How \<open>try\<close>/\<open>catch\<close>/\<open>finally\<close> settles: an exception of the \<open>finally\<close> block replaces
  one of the \<open>catch\<close> block; an exception of the \<open>try\<close> block is caught.
\<close>

definition settle :: "exn option \<Rightarrow> exn option \<Rightarrow> outcome" where
  "settle pending thrown_finally =
     (case thrown_finally of
        Some e \<Rightarrow> Rejected e
      | None \<Rightarrow> (case pending of Some e \<Rightarrow> Rejected e | None \<Rightarrow> Resolved))"

text \<open>
  The \<open>try\<close> statement of the first version, from \<open>try\<close> to the end of \<open>finally\<close>: how the
  promise settles, the flag it sets, its events.
\<close>

definition try_statement ::
  "platform \<Rightarrow> destination \<Rightarrow> UseSubmitterParams \<Rightarrow> obj \<Rightarrow> outcome \<times> bool \<times> event list" where
  "try_statement env dest c transformedData =
     (case try_block env dest c transformedData of
        (thrown, l, evs3) \<Rightarrow>
          (case (case thrown of None \<Rightarrow> (None, []) | Some e \<Rightarrow> catch_block (onError c) e) of
             (pending, evs4) \<Rightarrow>
               (case finally_block c transformedData l of
                  (thrown_finally, flag', evs5) \<Rightarrow>
                    (settle pending thrown_finally, flag', evs3 @ evs4 @ evs5))))"

text \<open>
  \<open>submitter(data, event)\<close> of the first version; \<open>flag\<close> is \<open>isFailed\<close> before the call.
\<close>

definition submitter ::
  "platform \<Rightarrow> destination \<Rightarrow> UseSubmitterParams \<Rightarrow> obj \<Rightarrow> bool \<Rightarrow> bool \<Rightarrow> settled" where
  "submitter env dest c data event flag =
     (let evs0 = (if event then [PreventDefault] else []) in
      case apply_transform (transform c) data of
        (Inl e, evs1) \<Rightarrow> \<lparr>promise = Rejected e, isFailed = flag, trace = evs0 @ evs1\<rparr>
      | (Inr transformedData, evs1) \<Rightarrow>
          (case declined env (confirmation c) of
             (True, evs2) \<Rightarrow> \<lparr>promise = Resolved, isFailed = flag, trace = evs0 @ evs1 @ evs2\<rparr>
           | (False, evs2) \<Rightarrow>
               (case try_statement env dest c transformedData of
                  (p, flag', evs) \<Rightarrow>
                    \<lparr>promise = p, isFailed = flag', trace = evs0 @ evs1 @ evs2 @ evs\<rparr>)))"

section \<open>The version with \<open>reset\<close>\<close>

text \<open>
  The second version of the file has \<open>reset\<close> and no \<open>onFailure\<close>, and hands \<open>mutate\<close> the
  result of \<open>mutate_data\<close>, which writes into the caller's object of default values. That
  object is therefore kept in a store and named by its address; the data of a call is
  read only, and stays a value.
\<close>

type_synonym store = "addr \<Rightarrow> obj"

record UseSubmitterParams_reset = params +
  default_values :: "addr option"
  reset :: "(obj option \<Rightarrow> exn option) option"
  on_success :: "(obj \<Rightarrow> response option \<Rightarrow> exn option) option"
  on_error :: "(exn \<Rightarrow> exn option) option"
  fetch_options :: "obj option"

record settled_reset = settled +
  heap :: store

text \<open>
  The loop of \<open>mutate_data\<close> over \<open>Object.keys(default_values)\<close>; \<open>new_data\<close> is the
  address of the default values, and \<open>new_data[key] = new_value\<close> writes there.
\<close>

fun mutate_data_loop :: "string list \<Rightarrow> obj \<Rightarrow> addr \<Rightarrow> store \<Rightarrow> store" where
  "mutate_data_loop [] data new_data st = st"
| "mutate_data_loop (key # keys) data new_data st =
     (let old_value = obj_get (st new_data) key;
          new_value = obj_get data key
      in if loose_undefined old_value \<or> loose_undefined new_value
         then mutate_data_loop keys data new_data
                (st(new_data := obj_set (st new_data) key new_value))
         else mutate_data_loop keys data new_data st)"

text \<open>
  \<open>mutate_data\<close> is an \<open>async\<close> function without \<open>await\<close>: it runs at once, and an
  exception of \<open>mutate\<close> rejects the promise it returns (the first component).
\<close>

definition mutate_data ::
  "(obj \<Rightarrow> exn option) \<Rightarrow> obj \<Rightarrow> addr option \<Rightarrow> store \<Rightarrow> exn option \<times> store \<times> event list" where
  "mutate_data mutate_cb data defaults st =
     (case defaults of
        None \<Rightarrow> (mutate_cb data, st, [Mutate (TransformedData data)])
      | Some new_data \<Rightarrow>
          (let st' = mutate_data_loop (map fst (st new_data)) data new_data st
           in (mutate_cb (st' new_data), st', [Mutate (StoredObject new_data)])))"

text \<open>
  The \<open>finally\<close> block of the version with \<open>reset\<close>. The promise of \<open>mutate_data\<close> is not
  awaited, so its rejection does not reach the caller.
\<close>

definition finally_reset ::
  "UseSubmitterParams_reset \<Rightarrow> obj \<Rightarrow> obj \<Rightarrow> locals \<Rightarrow> store
     \<Rightarrow> exn option \<times> bool \<times> store \<times> event list" where
  "finally_reset c data transed_data l st =
     (if submitOk l
      then (case invoke (\<lambda>f. f None) (reset c) (Reset None) of
              (Some e, evs) \<Rightarrow> (Some e, False, st, evs)
            | (None, evs) \<Rightarrow>
                (case invoke (\<lambda>f. f transed_data (response l)) (on_success c)
                        (OnSuccess transed_data (response l)) of
                   (Some e, evs') \<Rightarrow> (Some e, False, st, evs @ evs')
                 | (None, evs') \<Rightarrow>
                     (case mutate c of
                        None \<Rightarrow> (None, False, st, evs @ evs')
                      | Some m \<Rightarrow>
                          (case mutate_data m transed_data (default_values c) st of
                             (rejected, st', evs'') \<Rightarrow> (None, False, st', evs @ evs' @ evs'')))))
      else (case invoke (\<lambda>f. f (Some data)) (reset c) (Reset (Some data)) of
              (thrown, evs) \<Rightarrow> (thrown, True, st, evs)))"

text \<open>The \<open>try\<close> statement of the version with \<open>reset\<close>.\<close>

definition try_statement_reset ::
  "platform \<Rightarrow> destination \<Rightarrow> UseSubmitterParams_reset \<Rightarrow> obj \<Rightarrow> obj \<Rightarrow> store
     \<Rightarrow> outcome \<times> bool \<times> store \<times> event list" where
  "try_statement_reset env dest c data transed_data st =
     (case dispatch env dest (method c) (fetch_options c)
             (map_option st (default_values c)) transed_data of
        (thrown, l, evs3) \<Rightarrow>
          (case (case thrown of None \<Rightarrow> (None, []) | Some e \<Rightarrow> catch_block (on_error c) e) of
             (pending, evs4) \<Rightarrow>
               (case finally_reset c data transed_data l st of
                  (thrown_finally, flag', st', evs5) \<Rightarrow>
                    (settle pending thrown_finally, flag', st', evs3 @ evs4 @ evs5))))"

definition submitter_reset ::
  "platform \<Rightarrow> destination \<Rightarrow> UseSubmitterParams_reset \<Rightarrow> obj \<Rightarrow> bool \<Rightarrow> bool \<Rightarrow> store
     \<Rightarrow> settled_reset" where
  "submitter_reset env dest c data event flag st =
     (let evs0 = (if event then [PreventDefault] else []) in
      case apply_transform (transform c) data of
        (Inl e, evs1) \<Rightarrow>
          \<lparr>promise = Rejected e, isFailed = flag, trace = evs0 @ evs1, heap = st\<rparr>
      | (Inr transed_data, evs1) \<Rightarrow>
          (case declined env (confirmation c) of
             (True, evs2) \<Rightarrow>
               \<lparr>promise = Resolved, isFailed = flag, trace = evs0 @ evs1 @ evs2, heap = st\<rparr>
           | (False, evs2) \<Rightarrow>
               (case try_statement_reset env dest c data transed_data st of
                  (p, flag', st', evs) \<Rightarrow>
                    \<lparr>promise = p, isFailed = flag', trace = evs0 @ evs1 @ evs2 @ evs,
                     heap = st'\<rparr>)))"

section \<open>Concrete inputs\<close>

text \<open>The example of the specification: baseline \<open>{name: "Nir", age: 30}\<close>, input \<open>{name: "Nir", age: 31}\<close>.\<close>

definition baseline_Nir :: obj where
  "baseline_Nir = [(''name'', VStr ''Nir''), (''age'', VNum 30)]"

definition input_Nir :: obj where
  "input_Nir = [(''name'', VStr ''Nir''), (''age'', VNum 31)]"

text \<open>
  Data with an own key \<open>__proto__\<close>, as \<open>JSON.parse\<close> or a computed key
  \<open>{["__proto__"]: "x", a: "b"}\<close> makes it.
\<close>

definition input_proto :: obj where
  "input_proto = [(''__proto__'', VStr ''x''), (''a'', VStr ''b'')]"

text \<open>A \<open>JSON.stringify\<close> that knows the number of the example, and throws on objects.\<close>

definition stringify_31 :: "jsval \<Rightarrow> exn + jsval" where
  "stringify_31 v =
     (if v = VNum 31 then Inr (VStr ''31'')
      else if v = VNum 30 then Inr (VStr ''30'')
      else (case v of VObj a \<Rightarrow> Inl (VStr ''TypeError'') | _ \<Rightarrow> Inr VUndefined))"

text \<open>A platform whose user answers \<open>answer\<close> and whose transport settles as \<open>result\<close>.\<close>

definition platform_of :: "bool \<Rightarrow> exn + response option \<Rightarrow> platform" where
  "platform_of answer result =
     \<lparr>confirm = (\<lambda>m. answer), fetch = (\<lambda>url init. result), JSON_stringify = stringify_31\<rparr>"

text \<open>Options of the first version with every callback present and returning.\<close>

definition params_Nir :: UseSubmitterParams where
  "params_Nir =
     \<lparr>method = None, transform = None, confirmation = None, mutate = Some (\<lambda>d. None),
      defaultValues = Some baseline_Nir,
      onSuccess = Some (\<lambda>d r. None), onFailure = Some (\<lambda>d r. None),
      onError = Some (\<lambda>e. None), fetchOptions = None\<rparr>"

text \<open>Options of the version with \<open>reset\<close>; the default values live at address \<open>0\<close>.\<close>

definition params_reset_Nir :: UseSubmitterParams_reset where
  "params_reset_Nir =
     \<lparr>method = None, transform = None, confirmation = None, mutate = Some (\<lambda>d. None),
      default_values = Some 0,
      reset = Some (\<lambda>d. None), on_success = Some (\<lambda>d r. None),
      on_error = Some (\<lambda>e. None), fetch_options = None\<rparr>"

definition store_Nir :: store where
  "store_Nir = (\<lambda>a. [])(0 := baseline_Nir)"

section \<open>Reading a trace\<close>

text \<open>The kind of an event; a callback fires in a call when the trace has an event of its kind.\<close>

datatype kind =
  KPrevent | KTransform | KPrompt | KFetch | KDestination
  | KSuccess | KFailure | KError | KMutate | KReset

fun kind_of :: "event \<Rightarrow> kind" where
  "kind_of PreventDefault = KPrevent"
| "kind_of (Transform d) = KTransform"
| "kind_of (Prompt m) = KPrompt"
| "kind_of (Fetch url init) = KFetch"
| "kind_of (Destination d) = KDestination"
| "kind_of (OnSuccess d r) = KSuccess"
| "kind_of (OnFailure d r) = KFailure"
| "kind_of (OnError e) = KError"
| "kind_of (Mutate a) = KMutate"
| "kind_of (Reset d) = KReset"

definition fires :: "kind \<Rightarrow> event list \<Rightarrow> bool" where
  "fires k evs = (k \<in> set (map kind_of evs))"

definition count_kind :: "kind \<Rightarrow> event list \<Rightarrow> nat" where
  "count_kind k evs = length (filter (\<lambda>ev. kind_of ev = k) evs)"

text \<open>Events that are no call of \<open>onSuccess\<close>, \<open>onFailure\<close>, \<open>onError\<close>, \<open>mutate\<close> or \<open>reset\<close>.\<close>

definition quiet :: "event list \<Rightarrow> bool" where
  "quiet evs = (\<not> fires KSuccess evs \<and> \<not> fires KFailure evs \<and> \<not> fires KError evs \<and>
                \<not> fires KMutate evs \<and> \<not> fires KReset evs)"

text \<open>The entries that survive the diff, with or without a baseline.\<close>

definition survives :: "obj option \<Rightarrow> string \<times> jsval \<Rightarrow> bool" where
  "survives defaults kv = (case defaults of None \<Rightarrow> True | Some d \<Rightarrow> spec_changed d kv)"

text \<open>
  What the specification puts into the payload for an entry that survives: the value
  itself when it is a string or a file, its JSON serialisation otherwise.
\<close>

definition encodes :: "(jsval \<Rightarrow> exn + jsval) \<Rightarrow> string \<times> jsval \<Rightarrow> string \<times> jsval \<Rightarrow> bool" where
  "encodes stringify kv entry =
     (fst entry = fst kv \<and>
      (if is_string (snd kv) \<or> is_file (snd kv) then snd entry = snd kv
       else stringify (snd kv) = Inr (snd entry)))"

section \<open>The diff against the defaults\<close>

lemma is_same_values_spec:
  "is_same_values v d \<longleftrightarrow> truthy d \<and> spec_equal v d"
  by (cases v; cases d) (simp_all add: is_same_values_def spec_equal_def is_same_files_def)

lemma update_fresh: "k \<notin> fst ` set al \<Longrightarrow> AList.update k v al = al @ [(k, v)]"
  by (induction al) auto

lemma obj_set_fresh:
  "k \<notin> fst ` set ob \<Longrightarrow> obj_set ob k v = (if k = ''__proto__'' then ob else ob @ [(k, v)])"
  by (simp add: obj_set_def update_fresh)

lemma without_defaults_loop_filter:
  "distinct (map fst xs) \<Longrightarrow> fst ` set acc \<inter> fst ` set xs = {} \<Longrightarrow>
   without_defaults_loop xs d acc =
     acc @ filter (\<lambda>kv. spec_changed d kv \<and> fst kv \<noteq> ''__proto__'') xs"
proof (induction xs arbitrary: acc)
  case Nil
  then show ?case by simp
next
  case (Cons kv xs)
  obtain k v where kv: "kv = (k, v)" by (cases kv)
  have fresh: "k \<notin> fst ` set acc" using Cons.prems(2) kv by auto
  have d: "distinct (map fst xs)" using Cons.prems(1) by simp
  show ?case
  proof (cases "is_same_values v (obj_get d k)")
    case True
    have "fst ` set acc \<inter> fst ` set xs = {}" using Cons.prems(2) by auto
    from Cons.IH[OF d this] True show ?thesis
      by (simp add: kv spec_changed_def is_same_values_spec)
  next
    case False
    show ?thesis
    proof (cases "k = ''__proto__''")
      case True
      have os: "obj_set acc k v = acc" using obj_set_fresh[OF fresh, of v] True by simp
      have step: "without_defaults_loop (kv # xs) d acc = without_defaults_loop xs d acc"
        using False by (simp add: kv os)
      have "fst ` set acc \<inter> fst ` set xs = {}" using Cons.prems(2) by auto
      from Cons.IH[OF d this] True show ?thesis
        unfolding step by (simp add: kv)
    next
      case other: False
      have os: "obj_set acc k v = acc @ [(k, v)]" using obj_set_fresh[OF fresh, of v] other by simp
      have step: "without_defaults_loop (kv # xs) d acc = without_defaults_loop xs d (acc @ [(k, v)])"
        using False by (simp add: kv os)
      have "fst ` set (acc @ [(k, v)]) \<inter> fst ` set xs = {}"
        using Cons.prems kv by auto
      from Cons.IH[OF d this] False other show ?thesis
        unfolding step by (simp add: kv spec_changed_def is_same_values_spec)
    qed
  qed
qed

lemma to_form_data_loop_keys:
  "to_form_data_loop js xs dd acc = Inr fd \<Longrightarrow>
   map fst fd = map fst acc @ map fst (filter (\<lambda>kv. case dd of None \<Rightarrow> True | Some d \<Rightarrow> spec_changed d kv) xs)"
proof (induction xs arbitrary: acc)
  case Nil
  then show ?case by simp
next
  case (Cons kv xs)
  obtain k v where kv: "kv = (k, v)" by (cases kv)
  show ?case using Cons.prems Cons.IH
    by (cases dd) (auto simp: kv spec_changed_def is_same_values_spec split: if_splits sum.splits)
qed

lemma distinct_key_unique:
  "distinct (map fst xs) \<Longrightarrow> (k, v) \<in> set xs \<Longrightarrow> (k, v') \<in> set xs \<Longrightarrow> v' = v"
  by (induction xs) (auto simp: image_iff)

lemma filter_key_mem:
  assumes "distinct (map fst xs)" "(k, v) \<in> set xs"
  shows "k \<in> fst ` set (filter P xs) \<longleftrightarrow> P (k, v)"
proof
  assume "k \<in> fst ` set (filter P xs)"
  then obtain v' where "(k, v') \<in> set xs" "P (k, v')" by auto
  with distinct_key_unique[OF assms(1) assms(2)] show "P (k, v)" by auto
next
  assume "P (k, v)"
  with assms(2) have "(k, v) \<in> set (filter P xs)" by simp
  then show "k \<in> fst ` set (filter P xs)" by (rule rev_image_eqI) simp
qed

lemma filter_without_proto:
  "''__proto__'' \<notin> fst ` set xs \<Longrightarrow> filter (\<lambda>kv. P kv \<and> fst kv \<noteq> ''__proto__'') xs = filter P xs"
  by (induction xs) auto

lemma without_defaults_filter:
  assumes "distinct (map fst vals)"
  shows "without_defaults vals (Some d) =
           filter (\<lambda>kv. spec_changed d kv \<and> fst kv \<noteq> ''__proto__'') vals"
  using without_defaults_loop_filter[OF assms, of "[]" d] by (simp add: without_defaults_def)

text \<open>
  For data whose keys are each once and none of which is \<open>__proto__\<close>, the diff (what
  \<open>without_defaults\<close> returns and a callback destination is called with, and the keys
  \<open>to_form_data_without_default\<close> encodes for an endpoint) leaves a key out exactly when
  the baseline's value at the key is truthy and equal to the data's value, two files being
  equal when name, size, type and last-modified time agree and any other two values when
  they are strictly identical. Without a baseline the diff is the whole data.
\<close>

lemma without_defaults_excludes_exactly_unchanged:
  assumes dist: "distinct (map fst vals)" and np: "''__proto__'' \<notin> fst ` set vals"
  shows "without_defaults vals None = vals \<and>
     without_defaults vals (Some d) = filter (spec_changed d) vals \<and>
     (\<forall>k v. (k, v) \<in> set vals \<longrightarrow>
        (k \<notin> fst ` set (without_defaults vals (Some d))
           \<longleftrightarrow> truthy (obj_get d k) \<and> spec_equal v (obj_get d k))) \<and>
     (\<forall>fd. to_form_data_without_default js vals dv = Inr fd \<longrightarrow>
        map fst fd = map fst (without_defaults vals dv)) \<and>
     snd (snd (dispatch env (Action f) m opts dv vals)) = [Destination (without_defaults vals dv)]"
proof -
  have none: "without_defaults vals None = vals"
    by (simp add: without_defaults_def)
  have some: "without_defaults vals (Some d') = filter (spec_changed d') vals" for d'
    using without_defaults_filter[OF dist, of d'] filter_without_proto[OF np] by simp
  have keys: "\<forall>k v. (k, v) \<in> set vals \<longrightarrow>
        (k \<notin> fst ` set (without_defaults vals (Some d))
           \<longleftrightarrow> truthy (obj_get d k) \<and> spec_equal v (obj_get d k))"
  proof (intro allI impI)
    fix k v assume mem: "(k, v) \<in> set vals"
    show "k \<notin> fst ` set (without_defaults vals (Some d))
           \<longleftrightarrow> truthy (obj_get d k) \<and> spec_equal v (obj_get d k)"
      unfolding some filter_key_mem[OF dist mem] by (simp add: spec_changed_def)
  qed
  have form: "\<forall>fd. to_form_data_without_default js vals dv = Inr fd \<longrightarrow>
        map fst fd = map fst (without_defaults vals dv)"
  proof (intro allI impI)
    fix fd assume "to_form_data_without_default js vals dv = Inr fd"
    then have "to_form_data_loop js vals dv [] = Inr fd"
      by (simp add: to_form_data_without_default_def)
    from to_form_data_loop_keys[OF this] show "map fst fd = map fst (without_defaults vals dv)"
      by (cases dv) (simp_all add: none some)
  qed
  have disp: "snd (snd (dispatch env (Action f) m opts dv vals)) = [Destination (without_defaults vals dv)]"
    by (simp add: dispatch_def Let_def split: sum.splits)
  show ?thesis
    apply (intro conjI)
        apply (rule none)
       apply (rule some)
      apply (rule keys)
     apply (rule form)
    apply (rule disp)
    done
qed

text \<open>
  Claim C1 at data with an own key \<open>__proto__\<close>, baseline \<open>{}\<close>: the entry differs from
  the baseline (which has no equal value there), yet \<open>without_defaults\<close> leaves it out,
  because \<open>submit_values[key] = value\<close> runs the inherited setter; the callback destination
  is called with \<open>{a: "b"}\<close>. The sibling paths keep the entry: the payload for an endpoint
  has it, and without a baseline the data is returned whole.
\<close>

theorem without_defaults_drops_proto_key:
  "spec_changed [] (''__proto__'', VStr ''x'') \<and>
   without_defaults input_proto (Some []) = [(''a'', VStr ''b'')] \<and>
   trace (submitter (platform_of True (Inr None)) (Action (\<lambda>d. Inr True))
      (params_Nir\<lparr>defaultValues := Some []\<rparr>) input_proto False False) =
     [Destination [(''a'', VStr ''b'')], OnSuccess input_proto None,
      Mutate (TransformedData input_proto)] \<and>
   to_form_data_without_default stringify_31 input_proto (Some []) = Inr input_proto \<and>
   without_defaults input_proto None = input_proto"
proof -
  have a: "spec_changed [] (''__proto__'', VStr ''x'')"
    by (simp add: spec_changed_def obj_get_def)
  have b: "without_defaults input_proto (Some []) = [(''a'', VStr ''b'')]"
    by (simp add: without_defaults_def input_proto_def is_same_values_def obj_get_def obj_set_def)
  have c: "trace (submitter (platform_of True (Inr None)) (Action (\<lambda>d. Inr True))
      (params_Nir\<lparr>defaultValues := Some []\<rparr>) input_proto False False) =
     [Destination [(''a'', VStr ''b'')], OnSuccess input_proto None,
      Mutate (TransformedData input_proto)]"
    by (simp add: submitter_def try_statement_def try_block_def finally_block_def dispatch_def
          apply_transform_def declined_def invoke_def params_Nir_def Let_def b)
  have d: "to_form_data_without_default stringify_31 input_proto (Some []) = Inr input_proto"
    by (simp add: to_form_data_without_default_def input_proto_def is_same_values_def obj_get_def)
  have e: "without_defaults input_proto None = input_proto"
    by (simp add: without_defaults_def)
  from a b c d e show ?thesis by (intro conjI)
qed

section \<open>The payload for an endpoint\<close>

lemma survives_is_same_values:
  "survives dd (k, v) \<longleftrightarrow> (case dd of None \<Rightarrow> True | Some d \<Rightarrow> \<not> is_same_values v (obj_get d k))"
  by (cases dd) (simp_all add: survives_def spec_changed_def is_same_values_spec)

lemma to_form_data_loop_encodes:
  "to_form_data_loop js xs dd acc = Inr fd \<longleftrightarrow>
   (\<exists>ys. fd = acc @ ys \<and> list_all2 (encodes js) (filter (survives dd) xs) ys)"
proof (induction xs arbitrary: acc)
  case Nil
  then show ?case by auto
next
  case (Cons kv xs)
  obtain k v where kv: "kv = (k, v)" by (cases kv)
  have surv: "survives dd (k, v) \<longleftrightarrow> (case dd of None \<Rightarrow> True | Some d \<Rightarrow> \<not> is_same_values v (obj_get d k))"
    by (cases dd) (simp_all add: survives_def spec_changed_def is_same_values_spec)
  show ?case
  proof (cases "survives dd (k, v)")
    case False
    with surv Cons.IH[of acc] show ?thesis by (simp add: kv)
  next
    case True
    show ?thesis
    proof (cases "if is_string v \<or> is_file v then Inr v else js v")
      case (Inl e)
      with True surv show ?thesis
        by (auto simp: kv encodes_def list_all2_Cons1 split: if_splits)
    next
      case (Inr w)
      have enc: "encodes js (k, v) (k', w') \<longleftrightarrow> k' = k \<and> w' = w" for k' w'
        using Inr by (auto simp: encodes_def split: if_splits)
      have "to_form_data_loop js (kv # xs) dd acc = to_form_data_loop js xs dd (acc @ [(k, w)])"
        using True surv Inr by (simp add: kv)
      also have "\<dots> = Inr fd \<longleftrightarrow>
          (\<exists>ys. fd = (acc @ [(k, w)]) @ ys \<and> list_all2 (encodes js) (filter (survives dd) xs) ys)"
        by (rule Cons.IH)
      also have "\<dots> \<longleftrightarrow> (\<exists>ys. fd = acc @ ys \<and> list_all2 (encodes js) (filter (survives dd) (kv # xs)) ys)"
        using True by (auto simp: kv list_all2_Cons1 enc)
      finally show ?thesis .
    qed
  qed
qed

lemma dispatch_endpoint_events:
  "to_form_data_without_default (JSON_stringify env) td dv = Inr fd \<Longrightarrow>
   snd (snd (dispatch env (Endpoint url) m opts dv td)) = [Fetch url (fetch_init m fd opts)]"
  by (simp add: dispatch_def Let_def split: sum.splits)

lemma dispatch_endpoint:
  assumes "to_form_data_without_default (JSON_stringify env) td dv = Inr fd"
  shows "dispatch env (Endpoint url) m opts dv td =
     (case fetch env url (fetch_init m fd opts) of
        Inl e \<Rightarrow> (Some e, \<lparr>submitOk = False, response = None\<rparr>, [Fetch url (fetch_init m fd opts)])
      | Inr r \<Rightarrow> (None, \<lparr>submitOk = (case r of None \<Rightarrow> False | Some x \<Rightarrow> ok x), response = r\<rparr>,
                  [Fetch url (fetch_init m fd opts)]))"
  using assms by (simp add: dispatch_def Let_def split: sum.splits)

text \<open>
  Claim C8. \<open>to_form_data_without_default\<close> returns a payload exactly when the payload has
  one entry for each entry of the data that survives the diff, in order, under the same
  key, with the value itself when it is a string or a file and with what \<open>JSON.stringify\<close>
  returns for it otherwise; so the keys of the payload are those of the diff (which, for
  data without a key \<open>__proto__\<close>, is also what \<open>without_defaults\<close> returns), and the
  payload is the body \<open>fetch\<close> is called with. With baseline \<open>{name: "Nir", age: 30}\<close> and
  input \<open>{name: "Nir", age: 31}\<close> the payload is \<open>age = "31"\<close> alone.
\<close>

theorem payload_encodes_surviving_entries:
  "(to_form_data_without_default js data dv = Inr fd \<longleftrightarrow>
      list_all2 (encodes js) (filter (survives dv) data) fd) \<and>
   (distinct (map fst data) \<longrightarrow> ''__proto__'' \<notin> fst ` set data \<longrightarrow>
    to_form_data_without_default js data dv = Inr fd \<longrightarrow>
      map fst fd = map fst (without_defaults data dv)) \<and>
   (to_form_data_without_default (JSON_stringify env) data dv = Inr fd \<longrightarrow>
      snd (snd (dispatch env (Endpoint url) m opts dv data)) = [Fetch url (fetch_init m fd opts)]) \<and>
   (js (VNum 31) = Inr (VStr ''31'') \<longrightarrow>
      to_form_data_without_default js input_Nir (Some baseline_Nir) = Inr [(''age'', VStr ''31'')])"
proof -
  have enc: "to_form_data_without_default js' xs dd = Inr fd' \<longleftrightarrow>
      list_all2 (encodes js') (filter (survives dd) xs) fd'" for js' xs dd fd'
    using to_form_data_loop_encodes[of js' xs dd "[]" fd']
    by (simp add: to_form_data_without_default_def)
  have keys: "map fst fd = map fst (without_defaults data dv)"
    if dist: "distinct (map fst data)" and np: "''__proto__'' \<notin> fst ` set data"
      and r: "to_form_data_without_default js data dv = Inr fd"
    using without_defaults_excludes_exactly_unchanged[OF dist np,
        THEN conjunct2, THEN conjunct2, THEN conjunct2, THEN conjunct1, rule_format, OF r] .
  have ex: "to_form_data_without_default js input_Nir (Some baseline_Nir) = Inr [(''age'', VStr ''31'')]"
    if "js (VNum 31) = Inr (VStr ''31'')"
    using that
    by (simp add: to_form_data_without_default_def input_Nir_def baseline_Nir_def
          is_same_values_def obj_get_def)
  from enc[of js data dv fd] keys dispatch_endpoint_events[of env data dv fd url m opts] ex
  show ?thesis by blast
qed

theorem payload_encodes_surviving_entries_witness:
  "stringify_31 (VNum 31) = Inr (VStr ''31'') \<and> distinct (map fst input_Nir) \<and>
   ''__proto__'' \<notin> fst ` set input_Nir \<and>
   to_form_data_without_default stringify_31 input_Nir (Some baseline_Nir) = Inr [(''age'', VStr ''31'')] \<and>
   list_all2 (encodes stringify_31) (filter (survives (Some baseline_Nir)) input_Nir) [(''age'', VStr ''31'')] \<and>
   map fst [(''age'', VStr ''31'')] = map fst (without_defaults input_Nir (Some baseline_Nir))"
proof -
  have s: "stringify_31 (VNum 31) = Inr (VStr ''31'')" by (simp add: stringify_31_def)
  have d: "distinct (map fst input_Nir)" by (simp add: input_Nir_def)
  have np: "''__proto__'' \<notin> fst ` set input_Nir" by (simp add: input_Nir_def)
  note inst = payload_encodes_surviving_entries[where js = stringify_31 and data = input_Nir
      and dv = "Some baseline_Nir" and fd = "[(''age'', VStr ''31'')]"]
  from inst s have r: "to_form_data_without_default stringify_31 input_Nir (Some baseline_Nir)
      = Inr [(''age'', VStr ''31'')]" by blast
  from inst r d np s show ?thesis by blast
qed

section \<open>The events of each stage\<close>

lemma fires_Nil [simp]: "\<not> fires k []"
  by (simp add: fires_def)

lemma fires_Cons [simp]: "fires k (ev # evs) \<longleftrightarrow> kind_of ev = k \<or> fires k evs"
  by (auto simp: fires_def)

lemma fires_append [simp]: "fires k (xs @ ys) \<longleftrightarrow> fires k xs \<or> fires k ys"
  by (auto simp: fires_def)

lemma count_kind_Nil [simp]: "count_kind k [] = 0"
  by (simp add: count_kind_def)

lemma count_kind_Cons [simp]:
  "count_kind k (ev # evs) = (if kind_of ev = k then Suc (count_kind k evs) else count_kind k evs)"
  by (simp add: count_kind_def)

lemma count_kind_append [simp]: "count_kind k (xs @ ys) = count_kind k xs + count_kind k ys"
  by (simp add: count_kind_def)

lemma count_kind_not_fires: "\<not> fires k evs \<Longrightarrow> count_kind k evs = 0"
  by (induction evs) (auto split: if_splits)

lemma quiet_Nil [simp]: "quiet []"
  by (simp add: quiet_def)

lemma quiet_append [simp]: "quiet (xs @ ys) \<longleftrightarrow> quiet xs \<and> quiet ys"
  by (auto simp: quiet_def)

lemma quiet_prevent [simp]: "quiet (if event then [PreventDefault] else [])"
  by (simp add: quiet_def)

lemma quiet_fires:
  "quiet evs \<Longrightarrow> \<not> fires KSuccess evs \<and> \<not> fires KFailure evs \<and> \<not> fires KError evs \<and>
     \<not> fires KMutate evs \<and> \<not> fires KReset evs"
  by (simp add: quiet_def)

lemma quiet_counts:
  "quiet evs \<Longrightarrow> count_kind KSuccess evs = 0 \<and> count_kind KFailure evs = 0 \<and>
     count_kind KError evs = 0 \<and> count_kind KMutate evs = 0 \<and> count_kind KReset evs = 0"
  by (simp add: quiet_def count_kind_not_fires)

lemma kinds_apply_transform:
  "apply_transform t d = (x, evs) \<Longrightarrow> evs = [] \<or> evs = [Transform d]"
  by (auto simp: apply_transform_def split: option.splits)

lemma kinds_declined:
  "declined env msg = (b, evs) \<Longrightarrow> evs = [] \<or> (\<exists>m. evs = [Prompt m])"
  by (auto simp: declined_def split: option.splits if_splits)

lemma kinds_dispatch:
  "dispatch env dest m opts dv td = (thrown, l, evs) \<Longrightarrow>
     evs = [] \<or> (\<exists>url init. evs = [Fetch url init]) \<or> (\<exists>d. evs = [Destination d])"
  by (auto simp: dispatch_def Let_def split: destination.splits sum.splits)

lemma quiet_apply_transform: "apply_transform t d = (x, evs) \<Longrightarrow> quiet evs"
  by (drule kinds_apply_transform) (auto simp: quiet_def)

lemma quiet_declined: "declined env msg = (b, evs) \<Longrightarrow> quiet evs"
  by (drule kinds_declined) (auto simp: quiet_def)

lemma quiet_dispatch: "dispatch env dest m opts dv td = (thrown, l, evs) \<Longrightarrow> quiet evs"
  by (drule kinds_dispatch) (auto simp: quiet_def)

lemma dispatch_thrown_not_ok:
  "dispatch env dest m opts dv td = (Some e, l, evs) \<Longrightarrow> \<not> submitOk l"
  by (auto simp: dispatch_def Let_def split: destination.splits sum.splits)

section \<open>How the \<open>try\<close> statement goes\<close>

text \<open>The three ways the try statement of the first version goes.\<close>

lemma try_statement_thrown:
  assumes "dispatch env dest (method c) (fetchOptions c) (defaultValues c) td = (Some e, l, evs3)"
  shows "try_statement env dest c td =
           ((case onError c of None \<Rightarrow> Resolved
             | Some h \<Rightarrow> (case h e of None \<Rightarrow> Resolved | Some e' \<Rightarrow> Rejected e')),
            True,
            evs3 @ (case onError c of None \<Rightarrow> [] | Some h \<Rightarrow> [OnError e]))"
  using assms dispatch_thrown_not_ok[OF assms]
  by (simp add: try_statement_def try_block_def catch_block_def finally_block_def invoke_def
        settle_def split: option.splits)

lemma try_statement_not_ok:
  assumes "dispatch env dest (method c) (fetchOptions c) (defaultValues c) td = (None, l, evs3)"
    and "\<not> submitOk l"
  shows "try_statement env dest c td =
           ((case onFailure c of None \<Rightarrow> Resolved
             | Some f \<Rightarrow> (case f td (response l) of None \<Rightarrow> Resolved
                 | Some e \<Rightarrow> (case onError c of None \<Rightarrow> Resolved
                     | Some h \<Rightarrow> (case h e of None \<Rightarrow> Resolved | Some e' \<Rightarrow> Rejected e')))),
            True,
            evs3 @ (case onFailure c of None \<Rightarrow> []
                    | Some f \<Rightarrow> OnFailure td (response l) #
                        (case f td (response l) of None \<Rightarrow> []
                         | Some e \<Rightarrow> (case onError c of None \<Rightarrow> [] | Some h \<Rightarrow> [OnError e]))))"
  using assms
  by (simp add: try_statement_def try_block_def catch_block_def finally_block_def invoke_def
        settle_def split: option.splits)

lemma try_statement_ok:
  assumes "dispatch env dest (method c) (fetchOptions c) (defaultValues c) td = (None, l, evs3)"
    and "submitOk l"
  shows "try_statement env dest c td =
           ((case onSuccess c of None \<Rightarrow> (case mutate c of None \<Rightarrow> Resolved
                   | Some m \<Rightarrow> (case m td of None \<Rightarrow> Resolved | Some e \<Rightarrow> Rejected e))
             | Some f \<Rightarrow> (case f td (response l) of Some e \<Rightarrow> Rejected e
                 | None \<Rightarrow> (case mutate c of None \<Rightarrow> Resolved
                     | Some m \<Rightarrow> (case m td of None \<Rightarrow> Resolved | Some e \<Rightarrow> Rejected e)))),
            False,
            evs3 @ (case onSuccess c of None \<Rightarrow> (case mutate c of None \<Rightarrow> [] | Some m \<Rightarrow> [Mutate (TransformedData td)])
                    | Some f \<Rightarrow> OnSuccess td (response l) #
                        (case f td (response l) of Some e \<Rightarrow> []
                         | None \<Rightarrow> (case mutate c of None \<Rightarrow> [] | Some m \<Rightarrow> [Mutate (TransformedData td)]))))"
  using assms
  by (simp add: try_statement_def try_block_def catch_block_def finally_block_def invoke_def
        settle_def split: option.splits)

lemma submitter_proceeds:
  assumes "apply_transform (transform c) data = (Inr td, evs1)"
    and "declined env (confirmation c) = (False, evs2)"
  shows "submitter env dest c data event flag =
           \<lparr>promise = fst (try_statement env dest c td),
            isFailed = fst (snd (try_statement env dest c td)),
            trace = (if event then [PreventDefault] else []) @ evs1 @ evs2 @
                    snd (snd (try_statement env dest c td))\<rparr>"
  using assms by (simp add: submitter_def Let_def split: prod.splits)

lemma try_block_thrown_not_ok:
  "try_block env dest c td = (Some e, l, evs) \<Longrightarrow> \<not> submitOk l"
  by (auto simp: try_block_def invoke_def split: prod.splits option.splits if_splits
        dest: dispatch_thrown_not_ok)

lemma finally_block_no_throw:
  assumes "\<forall>f d r. onSuccess c = Some f \<longrightarrow> f d r = None"
    and "\<forall>m d. mutate c = Some m \<longrightarrow> m d = None"
  shows "fst (finally_block c td l) = None"
  using assms by (auto simp: finally_block_def invoke_def split: option.splits prod.splits)

lemma finally_block_not_ok: "\<not> submitOk l \<Longrightarrow> finally_block c td l = (None, True, [])"
  by (simp add: finally_block_def)

lemma try_statement_caught:
  assumes "try_block env dest c td = (Some e, l, evs)"
  shows "try_statement env dest c td =
           ((case onError c of None \<Rightarrow> Resolved
             | Some h \<Rightarrow> (case h e of None \<Rightarrow> Resolved | Some e' \<Rightarrow> Rejected e')),
            True,
            evs @ (case onError c of None \<Rightarrow> [] | Some h \<Rightarrow> [OnError e]))"
  using assms finally_block_not_ok[OF try_block_thrown_not_ok[OF assms]]
  by (simp add: try_statement_def catch_block_def invoke_def settle_def split: option.splits)

lemma try_statement_resolves:
  assumes "\<forall>h x. onError c = Some h \<longrightarrow> h x = None"
    and "\<forall>f d r. onSuccess c = Some f \<longrightarrow> f d r = None"
    and "\<forall>m d. mutate c = Some m \<longrightarrow> m d = None"
  shows "fst (try_statement env dest c td) = Resolved"
proof -
  obtain thrown l evs where tb: "try_block env dest c td = (thrown, l, evs)"
    by (metis prod_cases3)
  obtain tf fl evs5 where fb: "finally_block c td l = (tf, fl, evs5)"
    by (metis prod_cases3)
  have tf: "tf = None" using finally_block_no_throw[OF assms(2,3), of td l] fb by simp
  show ?thesis
  proof (cases thrown)
    case None
    with tb fb tf show ?thesis by (simp add: try_statement_def settle_def)
  next
    case (Some e)
    with tb fb tf assms(1) show ?thesis
      by (cases "onError c") (simp_all add: try_statement_def settle_def catch_block_def invoke_def)
  qed
qed

lemma finally_reset_not_ok:
  "\<not> submitOk l \<Longrightarrow>
   finally_reset c data td l st =
     ((case reset c of None \<Rightarrow> None | Some f \<Rightarrow> f (Some data)), True, st,
      (case reset c of None \<Rightarrow> [] | Some f \<Rightarrow> [Reset (Some data)]))"
  by (simp add: finally_reset_def invoke_def split: option.splits)

lemma finally_reset_events:
  "finally_reset c data td l st = (tf, fl, st', evs) \<Longrightarrow>
     \<not> fires KError evs \<and> \<not> fires KFailure evs \<and> count_kind KSuccess evs \<le> 1 \<and>
     (\<not> submitOk l \<longrightarrow> \<not> fires KSuccess evs \<and> \<not> fires KMutate evs)"
proof (cases "submitOk l")
  case False
  assume "finally_reset c data td l st = (tf, fl, st', evs)"
  with finally_reset_not_ok[OF False, of c data td st] False show ?thesis
    by (cases "reset c") auto
next
  case True
  assume fr: "finally_reset c data td l st = (tf, fl, st', evs)"
  obtain t1 e1 where i1: "invoke (\<lambda>f. f None) (reset c) (Reset None) = (t1, e1)"
    by (cases "invoke (\<lambda>f. f None) (reset c) (Reset None)")
  obtain t2 e2 where i2: "invoke (\<lambda>f. f td (response l)) (on_success c) (OnSuccess td (response l)) = (t2, e2)"
    by (cases "invoke (\<lambda>f. f td (response l)) (on_success c) (OnSuccess td (response l))")
  have k1: "e1 = [] \<or> e1 = [Reset None]" using i1 by (auto simp: invoke_def split: option.splits)
  have k2: "e2 = [] \<or> e2 = [OnSuccess td (response l)]" using i2 by (auto simp: invoke_def split: option.splits)
  have "evs = e1 \<or> evs = e1 @ e2 \<or> (\<exists>a. evs = e1 @ e2 @ [Mutate a])"
    using fr True i1 i2
    by (auto simp: finally_reset_def mutate_data_def Let_def split: option.splits prod.splits)
  with k1 k2 True show ?thesis by auto
qed


lemma try_statement_reset_thrown:
  assumes "dispatch env dest (method c) (fetch_options c) (map_option st (default_values c)) td
             = (Some e, l, evs3)"
  shows "try_statement_reset env dest c data td st =
           (settle (case on_error c of None \<Rightarrow> None | Some h \<Rightarrow> h e)
                   (case reset c of None \<Rightarrow> None | Some f \<Rightarrow> f (Some data)),
            True, st,
            evs3 @ (case on_error c of None \<Rightarrow> [] | Some h \<Rightarrow> [OnError e])
                 @ (case reset c of None \<Rightarrow> [] | Some f \<Rightarrow> [Reset (Some data)]))"
  using assms finally_reset_not_ok[OF dispatch_thrown_not_ok[OF assms], of c data td st]
  by (simp add: try_statement_reset_def catch_block_def invoke_def split: option.splits)

lemma try_statement_reset_returned:
  assumes "dispatch env dest (method c) (fetch_options c) (map_option st (default_values c)) td
             = (None, l, evs3)"
  shows "try_statement_reset env dest c data td st =
           (settle None (fst (finally_reset c data td l st)),
            fst (snd (finally_reset c data td l st)),
            fst (snd (snd (finally_reset c data td l st))),
            evs3 @ snd (snd (snd (finally_reset c data td l st))))"
  using assms by (simp add: try_statement_reset_def split: prod.splits)

lemma submitter_reset_proceeds:
  assumes "apply_transform (transform c) data = (Inr td, evs1)"
    and "declined env (confirmation c) = (False, evs2)"
  shows "submitter_reset env dest c data event flag st =
           \<lparr>promise = fst (try_statement_reset env dest c data td st),
            isFailed = fst (snd (try_statement_reset env dest c data td st)),
            trace = (if event then [PreventDefault] else []) @ evs1 @ evs2 @
                    snd (snd (snd (try_statement_reset env dest c data td st))),
            heap = fst (snd (snd (try_statement_reset env dest c data td st)))\<rparr>"
  using assms by (simp add: submitter_reset_def Let_def split: prod.splits)

lemma submitter_trace_split:
  "\<exists>pre E. trace (submitter env dest c data event flag) = pre @ E \<and> quiet pre \<and>
     (E = [] \<or> (\<exists>td. E = snd (snd (try_statement env dest c td))))"
proof -
  obtain x evs1 where t: "apply_transform (transform c) data = (x, evs1)"
    by (cases "apply_transform (transform c) data")
  obtain b evs2 where g: "declined env (confirmation c) = (b, evs2)"
    by (cases "declined env (confirmation c)")
  note q1 = quiet_apply_transform[OF t] and q2 = quiet_declined[OF g]
  show ?thesis
  proof (cases x)
    case (Inl e)
    with t have "trace (submitter env dest c data event flag) =
        ((if event then [PreventDefault] else []) @ evs1) @ []"
      by (simp add: submitter_def Let_def)
    with q1 show ?thesis by (metis quiet_append quiet_prevent)
  next
    case (Inr td)
    show ?thesis
    proof (cases b)
      case True
      with t g Inr have "trace (submitter env dest c data event flag) =
          ((if event then [PreventDefault] else []) @ evs1 @ evs2) @ []"
        by (simp add: submitter_def Let_def)
      with q1 q2 show ?thesis by (metis quiet_append quiet_prevent)
    next
      case False
      from g False have g': "declined env (confirmation c) = (False, evs2)" by simp
      have "trace (submitter env dest c data event flag) =
          ((if event then [PreventDefault] else []) @ evs1 @ evs2) @
          snd (snd (try_statement env dest c td))"
        using submitter_proceeds[OF t[unfolded Inr] g', of dest event flag] by simp
      with q1 q2 show ?thesis by (metis quiet_append quiet_prevent)
    qed
  qed
qed

lemma submitter_reset_trace_split:
  "\<exists>pre E. trace (submitter_reset env dest c data event flag st) = pre @ E \<and> quiet pre \<and>
     (E = [] \<or> (\<exists>td. E = snd (snd (snd (try_statement_reset env dest c data td st)))))"
proof -
  obtain x evs1 where t: "apply_transform (transform c) data = (x, evs1)"
    by (cases "apply_transform (transform c) data")
  obtain b evs2 where g: "declined env (confirmation c) = (b, evs2)"
    by (cases "declined env (confirmation c)")
  note q1 = quiet_apply_transform[OF t] and q2 = quiet_declined[OF g]
  show ?thesis
  proof (cases x)
    case (Inl e)
    with t have "trace (submitter_reset env dest c data event flag st) =
        ((if event then [PreventDefault] else []) @ evs1) @ []"
      by (simp add: submitter_reset_def Let_def)
    with q1 show ?thesis by (metis quiet_append quiet_prevent)
  next
    case (Inr td)
    show ?thesis
    proof (cases b)
      case True
      with t g Inr have "trace (submitter_reset env dest c data event flag st) =
          ((if event then [PreventDefault] else []) @ evs1 @ evs2) @ []"
        by (simp add: submitter_reset_def Let_def)
      with q1 q2 show ?thesis by (metis quiet_append quiet_prevent)
    next
      case False
      from g False have g': "declined env (confirmation c) = (False, evs2)" by simp
      have "trace (submitter_reset env dest c data event flag st) =
          ((if event then [PreventDefault] else []) @ evs1 @ evs2) @
          snd (snd (snd (try_statement_reset env dest c data td st)))"
        using submitter_reset_proceeds[OF t[unfolded Inr] g', of dest event flag st]
        by simp
      with q1 q2 show ?thesis by (metis quiet_append quiet_prevent)
    qed
  qed
qed

section \<open>Runs on the concrete inputs\<close>

lemmas run_defs =
  submitter_def try_statement_def try_block_def catch_block_def finally_block_def
  dispatch_def apply_transform_def declined_def settle_def invoke_def fetch_init_def spread_def
  to_form_data_without_default_def without_defaults_def obj_get_def obj_set_def
  is_same_values_def is_same_files_def
  platform_of_def params_Nir_def input_Nir_def baseline_Nir_def stringify_31_def Let_def

lemmas run_reset_defs =
  submitter_reset_def try_statement_reset_def finally_reset_def mutate_data_def
  catch_block_def dispatch_def apply_transform_def declined_def settle_def invoke_def
  fetch_init_def spread_def
  to_form_data_without_default_def without_defaults_def obj_get_def obj_set_def
  is_same_values_def is_same_files_def
  platform_of_def params_reset_Nir_def store_Nir_def input_Nir_def baseline_Nir_def
  stringify_31_def Let_def

lemma run_not_ok:
  "submitter (platform_of True (Inr (Some \<lparr>ok = False, status = 400\<rparr>))) (Endpoint ''/api'')
     params_Nir input_Nir False False =
   \<lparr>promise = Resolved, isFailed = True,
    trace = [Fetch ''/api'' [(''method'', Plain (VStr ''POST'')), (''body'', Payload [(''age'', VStr ''31'')])],
             OnFailure input_Nir (Some \<lparr>ok = False, status = 400\<rparr>)]\<rparr>"
  by (simp add: run_defs)

lemma run_rejected_fetch:
  "submitter (platform_of True (Inl (VStr ''offline''))) (Endpoint ''/api'')
     params_Nir input_Nir False False =
   \<lparr>promise = Resolved, isFailed = True,
    trace = [Fetch ''/api'' [(''method'', Plain (VStr ''POST'')), (''body'', Payload [(''age'', VStr ''31'')])],
             OnError (VStr ''offline'')]\<rparr>"
  by (simp add: run_defs)

lemma run_throwing_transform:
  "submitter (platform_of True (Inr None)) (Endpoint ''/api'')
     (params_Nir\<lparr>transform := Some (\<lambda>d. Inl (VStr ''boom''))\<rparr>) input_Nir False False =
   \<lparr>promise = Rejected (VStr ''boom''), isFailed = False, trace = [Transform input_Nir]\<rparr>"
  by (simp add: run_defs)

lemma run_throwing_onFailure:
  "submitter (platform_of True (Inr None)) (Action (\<lambda>d. Inr False))
     (params_Nir\<lparr>onFailure := Some (\<lambda>d r. Some (VStr ''boom''))\<rparr>) input_Nir False False =
   \<lparr>promise = Resolved, isFailed = True,
    trace = [Destination [(''age'', VNum 31)], OnFailure input_Nir None, OnError (VStr ''boom'')]\<rparr>"
  by (simp add: run_defs)

lemma run_reset_ok:
  "submitter_reset (platform_of True (Inr (Some \<lparr>ok = True, status = 200\<rparr>))) (Endpoint ''/api'')
     params_reset_Nir input_Nir False True store_Nir =
   \<lparr>promise = Resolved, isFailed = False,
    trace = [Fetch ''/api'' [(''method'', Plain (VStr ''POST'')), (''body'', Payload [(''age'', VStr ''31'')])],
             Reset None,
             OnSuccess input_Nir (Some \<lparr>ok = True, status = 200\<rparr>),
             Mutate (StoredObject 0)],
    heap = store_Nir\<rparr>"
  by (simp add: run_reset_defs fun_upd_idem)

lemma run_reset_rejected_fetch:
  "submitter_reset (platform_of True (Inl (VStr ''offline''))) (Endpoint ''/api'')
     params_reset_Nir input_Nir False False store_Nir =
   \<lparr>promise = Resolved, isFailed = True,
    trace = [Fetch ''/api'' [(''method'', Plain (VStr ''POST'')), (''body'', Payload [(''age'', VStr ''31'')])],
             OnError (VStr ''offline''), Reset (Some input_Nir)],
    heap = store_Nir\<rparr>"
  by (simp add: run_reset_defs)

section \<open>Exceptions and the promise\<close>

text \<open>
  Claim C2, as amended. The promise of \<open>submitter\<close> resolves whenever \<open>transform\<close> returns
  and the callbacks \<open>onError\<close>, \<open>onSuccess\<close> and \<open>mutate\<close> return: an exception thrown in
  the \<open>try\<close> block (by the encoding, by \<open>fetch\<close>, by the destination callback or by
  \<open>onFailure\<close>) is caught and handed to \<open>onError\<close> when there is one. \<open>transform\<close> is
  called before the \<open>try\<close> block; what it throws is not caught: the promise rejects
  with it, the flag keeps its value, and \<open>onError\<close> is not called.
\<close>

theorem promise_resolves_unless_uncaught:
  assumes "apply_transform (transform c) data = (Inr td, evs1)"
    and "\<forall>h x. onError c = Some h \<longrightarrow> h x = None"
    and "\<forall>f d r. onSuccess c = Some f \<longrightarrow> f d r = None"
    and "\<forall>m d. mutate c = Some m \<longrightarrow> m d = None"
  shows "promise (submitter env dest c data event flag) = Resolved \<and>
         (\<forall>e l evs h. \<not> fst (declined env (confirmation c)) \<longrightarrow>
            try_block env dest c td = (Some e, l, evs) \<longrightarrow> onError c = Some h \<longrightarrow>
            OnError e \<in> set (trace (submitter env dest c data event flag))) \<and>
         (\<forall>c' raw e evs. apply_transform (transform c') raw = (Inl e, evs) \<longrightarrow>
            submitter env dest c' raw event flag =
              \<lparr>promise = Rejected e, isFailed = flag,
               trace = (if event then [PreventDefault] else []) @ evs\<rparr> \<and>
            \<not> fires KError (trace (submitter env dest c' raw event flag)))"
proof -
  obtain b evs2 where g: "declined env (confirmation c) = (b, evs2)"
    by (cases "declined env (confirmation c)")
  have res: "promise (submitter env dest c data event flag) = Resolved"
  proof (cases b)
    case True
    with assms(1) g show ?thesis by (simp add: submitter_def Let_def)
  next
    case False
    with submitter_proceeds[OF assms(1), of env evs2 dest event flag] g
      try_statement_resolves[OF assms(2-4), of env dest td]
    show ?thesis by simp
  qed
  have routed: "OnError e \<in> set (trace (submitter env dest c data event flag))"
    if "\<not> fst (declined env (confirmation c))"
      and tb: "try_block env dest c td = (Some e, l, evs)" and h: "onError c = Some h"
    for e l evs h
  proof -
    from that(1) g have g': "declined env (confirmation c) = (False, evs2)" by simp
    show ?thesis
      using submitter_proceeds[OF assms(1) g', of dest event flag] try_statement_caught[OF tb] h
      by simp
  qed
  have routed': "\<forall>e l evs h. \<not> fst (declined env (confirmation c)) \<longrightarrow>
            try_block env dest c td = (Some e, l, evs) \<longrightarrow> onError c = Some h \<longrightarrow>
            OnError e \<in> set (trace (submitter env dest c data event flag))"
    using routed by blast
  have escapes: "\<forall>c' raw e evs. apply_transform (transform c') raw = (Inl e, evs) \<longrightarrow>
            submitter env dest c' raw event flag =
              \<lparr>promise = Rejected e, isFailed = flag,
               trace = (if event then [PreventDefault] else []) @ evs\<rparr> \<and>
            \<not> fires KError (trace (submitter env dest c' raw event flag))"
  proof (intro allI impI)
    fix c' :: UseSubmitterParams and raw e evs
    assume t: "apply_transform (transform c') raw = (Inl e, evs)"
    have s: "submitter env dest c' raw event flag =
              \<lparr>promise = Rejected e, isFailed = flag,
               trace = (if event then [PreventDefault] else []) @ evs\<rparr>"
      using t by (simp add: submitter_def Let_def)
    from kinds_apply_transform[OF t] have "\<not> fires KError ((if event then [PreventDefault] else []) @ evs)"
      by auto
    with s show "submitter env dest c' raw event flag =
              \<lparr>promise = Rejected e, isFailed = flag,
               trace = (if event then [PreventDefault] else []) @ evs\<rparr> \<and>
            \<not> fires KError (trace (submitter env dest c' raw event flag))"
      by simp
  qed
  show ?thesis
    apply (intro conjI)
      apply (rule res)
     apply (rule routed')
    apply (rule escapes)
    done
qed

theorem promise_resolves_unless_uncaught_witness:
  "apply_transform (transform params_Nir) input_Nir = (Inr input_Nir, []) \<and>
   promise (submitter (platform_of True (Inl (VStr ''offline''))) (Endpoint ''/api'')
              params_Nir input_Nir False False) = Resolved \<and>
   OnError (VStr ''offline'') \<in> set (trace (submitter (platform_of True (Inl (VStr ''offline'')))
              (Endpoint ''/api'') params_Nir input_Nir False False))"
proof -
  let ?env = "platform_of True (Inl (VStr ''offline''))"
  have t: "apply_transform (transform params_Nir) input_Nir = (Inr input_Nir, [])"
    by (simp add: apply_transform_def params_Nir_def)
  have h1: "\<forall>h x. onError params_Nir = Some h \<longrightarrow> h x = None"
    and h2: "\<forall>f d r. onSuccess params_Nir = Some f \<longrightarrow> f d r = None"
    and h3: "\<forall>m d. mutate params_Nir = Some m \<longrightarrow> m d = None"
    by (auto simp: params_Nir_def)
  have g: "\<not> fst (declined ?env (confirmation params_Nir))"
    by (simp add: declined_def params_Nir_def)
  have tb: "try_block ?env (Endpoint ''/api'') params_Nir input_Nir =
      (Some (VStr ''offline''), \<lparr>submitOk = False, response = None\<rparr>,
       [Fetch ''/api'' [(''method'', Plain (VStr ''POST'')), (''body'', Payload [(''age'', VStr ''31'')])]])"
    by (simp add: run_defs)
  have e: "onError params_Nir = Some (\<lambda>e. None)" by (simp add: params_Nir_def)
  note inst = promise_resolves_unless_uncaught[OF t h1 h2 h3,
      of ?env "Endpoint ''/api''" False False]
  from inst[THEN conjunct1] inst[THEN conjunct2, THEN conjunct1] g tb e t
  show ?thesis by blast
qed

text \<open>
  The claim as stated fails: \<open>transform\<close> throws, the promise rejects, and \<open>onError\<close>,
  though present, is not called.
\<close>

theorem transform_exception_escapes:
  "promise (submitter (platform_of True (Inr None)) (Endpoint ''/api'')
      (params_Nir\<lparr>transform := Some (\<lambda>d. Inl (VStr ''boom''))\<rparr>) input_Nir False False)
     = Rejected (VStr ''boom'') \<and>
   onError (params_Nir\<lparr>transform := Some (\<lambda>d. Inl (VStr ''boom''))\<rparr>) \<noteq> None \<and>
   \<not> fires KError (trace (submitter (platform_of True (Inr None)) (Endpoint ''/api'')
      (params_Nir\<lparr>transform := Some (\<lambda>d. Inl (VStr ''boom''))\<rparr>) input_Nir False False))"
  by (simp add: run_throwing_transform) (simp add: params_Nir_def)

text \<open>
  Claim C9. In both versions, when the dispatch (the diff, the encoding, \<open>fetch\<close> or the
  destination callback) throws \<open>e\<close>, the flag is set to true, \<open>onError\<close> (when there is
  one) is called once with \<open>e\<close>, and \<open>onFailure\<close>, \<open>onSuccess\<close> and \<open>mutate\<close> are not
  called. (The version with \<open>reset\<close> then calls \<open>reset(data)\<close>, as on every failure.)
\<close>

theorem caught_exception_fires_onError_only:
  "(apply_transform (transform c) data = (Inr td, evt) \<and>
    declined env (confirmation c) = (False, evc) \<and>
    dispatch env dest (method c) (fetchOptions c) (defaultValues c) td = (Some e, l, evd) \<longrightarrow>
      isFailed (submitter env dest c data event flag) \<and>
      trace (submitter env dest c data event flag) =
        (if event then [PreventDefault] else []) @ evt @ evc @ evd @
        (case onError c of None \<Rightarrow> [] | Some h \<Rightarrow> [OnError e]) \<and>
      \<not> fires KFailure (trace (submitter env dest c data event flag)) \<and>
      \<not> fires KSuccess (trace (submitter env dest c data event flag)) \<and>
      \<not> fires KMutate (trace (submitter env dest c data event flag)) \<and>
      count_kind KError (trace (submitter env dest c data event flag)) =
        (case onError c of None \<Rightarrow> 0 | Some h \<Rightarrow> 1)) \<and>
   (apply_transform (transform c') data = (Inr td', evt') \<and>
    declined env (confirmation c') = (False, evc') \<and>
    dispatch env dest (method c') (fetch_options c') (map_option st (default_values c')) td'
      = (Some e', l', evd') \<longrightarrow>
      isFailed (submitter_reset env dest c' data event flag st) \<and>
      trace (submitter_reset env dest c' data event flag st) =
        (if event then [PreventDefault] else []) @ evt' @ evc' @ evd' @
        (case on_error c' of None \<Rightarrow> [] | Some h \<Rightarrow> [OnError e']) @
        (case reset c' of None \<Rightarrow> [] | Some f \<Rightarrow> [Reset (Some data)]) \<and>
      \<not> fires KFailure (trace (submitter_reset env dest c' data event flag st)) \<and>
      \<not> fires KSuccess (trace (submitter_reset env dest c' data event flag st)) \<and>
      \<not> fires KMutate (trace (submitter_reset env dest c' data event flag st)) \<and>
      count_kind KError (trace (submitter_reset env dest c' data event flag st)) =
        (case on_error c' of None \<Rightarrow> 0 | Some h \<Rightarrow> 1) \<and>
      heap (submitter_reset env dest c' data event flag st) = st)"
  (is "(?A1 \<longrightarrow> ?B1) \<and> (?A2 \<longrightarrow> ?B2)")
proof (rule conjI; rule impI; elim conjE)
  assume t: "apply_transform (transform c) data = (Inr td, evt)"
    and g: "declined env (confirmation c) = (False, evc)"
    and d: "dispatch env dest (method c) (fetchOptions c) (defaultValues c) td = (Some e, l, evd)"
  let ?pre = "(if event then [PreventDefault] else []) @ evt @ evc @ evd"
  let ?tail = "case onError c of None \<Rightarrow> [] | Some h \<Rightarrow> [OnError e]"
  have q: "quiet ?pre"
    using quiet_apply_transform[OF t] quiet_declined[OF g] quiet_dispatch[OF d] by simp
  have r: "isFailed (submitter env dest c data event flag)"
    "trace (submitter env dest c data event flag) = ?pre @ ?tail"
    using submitter_proceeds[OF t g, of dest event flag] try_statement_thrown[OF d] by simp_all
  have tail: "\<not> fires KFailure ?tail \<and> \<not> fires KSuccess ?tail \<and> \<not> fires KMutate ?tail \<and>
      count_kind KError ?tail = (case onError c of None \<Rightarrow> 0 | Some h \<Rightarrow> 1)"
    by (simp split: option.splits)
  from tail quiet_fires[OF q] quiet_counts[OF q] r
  show ?B1
    by simp
next
  assume t: "apply_transform (transform c') data = (Inr td', evt')"
    and g: "declined env (confirmation c') = (False, evc')"
    and d: "dispatch env dest (method c') (fetch_options c') (map_option st (default_values c')) td'
      = (Some e', l', evd')"
  let ?pre = "(if event then [PreventDefault] else []) @ evt' @ evc' @ evd'"
  let ?tail = "(case on_error c' of None \<Rightarrow> [] | Some h \<Rightarrow> [OnError e']) @
        (case reset c' of None \<Rightarrow> [] | Some f \<Rightarrow> [Reset (Some data)])"
  have q: "quiet ?pre"
    using quiet_apply_transform[OF t] quiet_declined[OF g] quiet_dispatch[OF d] by simp
  have r: "isFailed (submitter_reset env dest c' data event flag st)"
    "trace (submitter_reset env dest c' data event flag st) = ?pre @ ?tail"
    "heap (submitter_reset env dest c' data event flag st) = st"
    using submitter_reset_proceeds[OF t g, of dest event flag st]
      try_statement_reset_thrown[OF d, of data] by simp_all
  have tail: "\<not> fires KFailure ?tail \<and> \<not> fires KSuccess ?tail \<and> \<not> fires KMutate ?tail \<and>
      count_kind KError ?tail = (case on_error c' of None \<Rightarrow> 0 | Some h \<Rightarrow> 1)"
    by (simp split: option.splits)
  from tail quiet_fires[OF q] quiet_counts[OF q] r
  show ?B2
    by simp
qed

theorem caught_exception_fires_onError_only_witness:
  "isFailed (submitter (platform_of True (Inl (VStr ''offline''))) (Endpoint ''/api'')
      params_Nir input_Nir False False) \<and>
   trace (submitter (platform_of True (Inl (VStr ''offline''))) (Endpoint ''/api'')
      params_Nir input_Nir False False) =
     [Fetch ''/api'' [(''method'', Plain (VStr ''POST'')), (''body'', Payload [(''age'', VStr ''31'')])],
      OnError (VStr ''offline'')] \<and>
   isFailed (submitter_reset (platform_of True (Inl (VStr ''offline''))) (Endpoint ''/api'')
      params_reset_Nir input_Nir False False store_Nir) \<and>
   trace (submitter_reset (platform_of True (Inl (VStr ''offline''))) (Endpoint ''/api'')
      params_reset_Nir input_Nir False False store_Nir) =
     [Fetch ''/api'' [(''method'', Plain (VStr ''POST'')), (''body'', Payload [(''age'', VStr ''31'')])],
      OnError (VStr ''offline''), Reset (Some input_Nir)]"
proof -
  let ?env = "platform_of True (Inl (VStr ''offline''))"
  let ?init = "[(''method'', Plain (VStr ''POST'')), (''body'', Payload [(''age'', VStr ''31'')])]"
  have t: "apply_transform (transform params_Nir) input_Nir = (Inr input_Nir, [])"
    by (simp add: apply_transform_def params_Nir_def)
  have g: "declined ?env (confirmation params_Nir) = (False, [])"
    by (simp add: declined_def params_Nir_def)
  have d: "dispatch ?env (Endpoint ''/api'') (method params_Nir) (fetchOptions params_Nir)
             (defaultValues params_Nir) input_Nir =
           (Some (VStr ''offline''), \<lparr>submitOk = False, response = None\<rparr>, [Fetch ''/api'' ?init])"
    by (simp add: run_defs)
  have t': "apply_transform (transform params_reset_Nir) input_Nir = (Inr input_Nir, [])"
    by (simp add: apply_transform_def params_reset_Nir_def)
  have g': "declined ?env (confirmation params_reset_Nir) = (False, [])"
    by (simp add: declined_def params_reset_Nir_def)
  have d': "dispatch ?env (Endpoint ''/api'') (method params_reset_Nir)
             (fetch_options params_reset_Nir)
             (map_option store_Nir (default_values params_reset_Nir)) input_Nir =
           (Some (VStr ''offline''), \<lparr>submitOk = False, response = None\<rparr>, [Fetch ''/api'' ?init])"
    by (simp add: run_reset_defs)
  have e: "onError params_Nir = Some (\<lambda>e. None)" by (simp add: params_Nir_def)
  have e': "on_error params_reset_Nir = Some (\<lambda>e. None)"
    "reset params_reset_Nir = Some (\<lambda>d. None)" by (simp_all add: params_reset_Nir_def)
  note inst = caught_exception_fires_onError_only[where env = ?env and dest = "Endpoint ''/api''"
      and c = params_Nir and data = input_Nir and td = input_Nir and evt = "[]" and evc = "[]"
      and e = "VStr ''offline''" and l = "\<lparr>submitOk = False, response = None\<rparr>"
      and evd = "[Fetch ''/api'' ?init]" and event = False and flag = False
      and c' = params_reset_Nir and td' = input_Nir and evt' = "[]" and evc' = "[]"
      and e' = "VStr ''offline''" and l' = "\<lparr>submitOk = False, response = None\<rparr>"
      and evd' = "[Fetch ''/api'' ?init]" and st = store_Nir]
  from inst t g d have first:
    "isFailed (submitter ?env (Endpoint ''/api'') params_Nir input_Nir False False) \<and>
     trace (submitter ?env (Endpoint ''/api'') params_Nir input_Nir False False) =
       [Fetch ''/api'' ?init, OnError (VStr ''offline'')]"
    by (simp add: e)
  from inst t' g' d' have second:
    "isFailed (submitter_reset ?env (Endpoint ''/api'') params_reset_Nir input_Nir False False store_Nir) \<and>
     trace (submitter_reset ?env (Endpoint ''/api'') params_reset_Nir input_Nir False False store_Nir) =
       [Fetch ''/api'' ?init, OnError (VStr ''offline''), Reset (Some input_Nir)]"
    by (simp add: e')
  from first second show ?thesis by simp
qed

section \<open>Which callbacks fire\<close>

lemma try_statement_exclusive:
  fixes env dest c td
  defines "E \<equiv> snd (snd (try_statement env dest c td))"
  shows "\<not> (fires KSuccess E \<and> fires KFailure E) \<and>
         \<not> (fires KSuccess E \<and> fires KError E) \<and>
         (fires KFailure E \<and> fires KError E \<longrightarrow>
            (\<exists>f d r e. onFailure c = Some f \<and> f d r = Some e \<and>
               OnFailure d r \<in> set E \<and> OnError e \<in> set E)) \<and>
         count_kind KSuccess E \<le> 1 \<and> count_kind KFailure E \<le> 1 \<and> count_kind KError E \<le> 1"
proof -
  obtain thrown l evs3 where
    d: "dispatch env dest (method c) (fetchOptions c) (defaultValues c) td = (thrown, l, evs3)"
    by (metis prod_cases3)
  note q = quiet_fires[OF quiet_dispatch[OF d]] quiet_counts[OF quiet_dispatch[OF d]]
  show ?thesis
  proof (cases thrown)
    case (Some e)
    have "E = evs3 @ (case onError c of None \<Rightarrow> [] | Some h \<Rightarrow> [OnError e])"
      using try_statement_thrown[OF d[unfolded Some]] by (simp add: E_def)
    with q show ?thesis by (cases "onError c") simp_all
  next
    case None
    show ?thesis
    proof (cases "submitOk l")
      case True
      have "E = evs3 @ (case onSuccess c of None \<Rightarrow> (case mutate c of None \<Rightarrow> [] | Some m \<Rightarrow> [Mutate (TransformedData td)])
                    | Some f \<Rightarrow> OnSuccess td (response l) #
                        (case f td (response l) of Some e \<Rightarrow> []
                         | None \<Rightarrow> (case mutate c of None \<Rightarrow> [] | Some m \<Rightarrow> [Mutate (TransformedData td)])))"
        using try_statement_ok[OF d[unfolded None] True] by (simp add: E_def)
      with q show ?thesis by (simp split: option.splits)
    next
      case False
      have E: "E = evs3 @ (case onFailure c of None \<Rightarrow> []
                    | Some f \<Rightarrow> OnFailure td (response l) #
                        (case f td (response l) of None \<Rightarrow> []
                         | Some e \<Rightarrow> (case onError c of None \<Rightarrow> [] | Some h \<Rightarrow> [OnError e])))"
        using try_statement_not_ok[OF d[unfolded None] False] by (simp add: E_def)
      show ?thesis
      proof (cases "onFailure c")
        case None
        with E q show ?thesis by simp
      next
        case (Some f)
        show ?thesis
        proof (cases "f td (response l)")
          case None
          with E q Some show ?thesis by simp
        next
          case thrown: (Some e)
          show ?thesis
          proof (cases "onError c")
            case None
            with E q Some thrown show ?thesis by simp
          next
            case h: (Some h)
            have E': "E = evs3 @ [OnFailure td (response l), OnError e]"
              using E Some thrown h by simp
            have ex: "\<exists>f d r e. onFailure c = Some f \<and> f d r = Some e \<and>
               OnFailure d r \<in> set E \<and> OnError e \<in> set E"
              apply (rule exI[of _ f], rule exI[of _ td], rule exI[of _ "response l"], rule exI[of _ e])
              using Some thrown E' by simp
            from q E' have rest: "\<not> fires KSuccess E \<and> count_kind KSuccess E \<le> 1 \<and>
                count_kind KFailure E \<le> 1 \<and> count_kind KError E \<le> 1"
              by simp
            from ex rest show ?thesis by blast
          qed
        qed
      qed
    qed
  qed
qed

lemma try_statement_reset_exclusive:
  fixes env dest c data td st
  defines "E \<equiv> snd (snd (snd (try_statement_reset env dest c data td st)))"
  shows "\<not> fires KFailure E \<and> \<not> (fires KSuccess E \<and> fires KError E) \<and>
         count_kind KSuccess E \<le> 1 \<and> count_kind KError E \<le> 1"
proof -
  obtain thrown l evs3 where
    d: "dispatch env dest (method c) (fetch_options c) (map_option st (default_values c)) td
          = (thrown, l, evs3)"
    by (metis prod_cases3)
  note q = quiet_fires[OF quiet_dispatch[OF d]] quiet_counts[OF quiet_dispatch[OF d]]
  show ?thesis
  proof (cases thrown)
    case (Some e)
    have "E = evs3 @ (case on_error c of None \<Rightarrow> [] | Some h \<Rightarrow> [OnError e])
                 @ (case reset c of None \<Rightarrow> [] | Some f \<Rightarrow> [Reset (Some data)])"
      using try_statement_reset_thrown[OF d[unfolded Some]] by (simp add: E_def)
    with q show ?thesis by (simp split: option.splits)
  next
    case None
    obtain tf fl st' evs5 where fr: "finally_reset c data td l st = (tf, fl, st', evs5)"
      by (metis prod_cases4)
    have "E = evs3 @ evs5"
      using try_statement_reset_returned[OF d[unfolded None]] fr by (simp add: E_def)
    with q finally_reset_events[OF fr] show ?thesis
      by (simp add: count_kind_not_fires)
  qed
qed

lemma exclusive_lift:
  assumes "quiet pre"
    and "\<not> (fires KSuccess E \<and> fires KFailure E) \<and>
         \<not> (fires KSuccess E \<and> fires KError E) \<and>
         (fires KFailure E \<and> fires KError E \<longrightarrow>
            (\<exists>f d r e. onFailure c = Some f \<and> f d r = Some e \<and>
               OnFailure d r \<in> set E \<and> OnError e \<in> set E)) \<and>
         count_kind KSuccess E \<le> 1 \<and> count_kind KFailure E \<le> 1 \<and> count_kind KError E \<le> 1"
  shows "\<not> (fires KSuccess (pre @ E) \<and> fires KFailure (pre @ E)) \<and>
         \<not> (fires KSuccess (pre @ E) \<and> fires KError (pre @ E)) \<and>
         (fires KFailure (pre @ E) \<and> fires KError (pre @ E) \<longrightarrow>
            (\<exists>f d r e. onFailure c = Some f \<and> f d r = Some e \<and>
               OnFailure d r \<in> set (pre @ E) \<and> OnError e \<in> set (pre @ E))) \<and>
         count_kind KSuccess (pre @ E) \<le> 1 \<and> count_kind KFailure (pre @ E) \<le> 1 \<and>
         count_kind KError (pre @ E) \<le> 1"
proof -
  note q = quiet_fires[OF assms(1)] quiet_counts[OF assms(1)]
  have ex: "\<exists>f d r e. onFailure c = Some f \<and> f d r = Some e \<and>
               OnFailure d r \<in> set (pre @ E) \<and> OnError e \<in> set (pre @ E)"
    if "fires KFailure E" "fires KError E"
  proof -
    from assms(2) that obtain f d r e where
      "onFailure c = Some f" "f d r = Some e" "OnFailure d r \<in> set E" "OnError e \<in> set E"
      by blast
    then show ?thesis by (intro exI[of _ f] exI[of _ d] exI[of _ r] exI[of _ e]) simp
  qed
  from assms(2) q ex show ?thesis by simp
qed

text \<open>
  Claim C3, as amended. In a call of \<open>submitter\<close>, \<open>onSuccess\<close> never fires together with
  \<open>onFailure\<close> or with \<open>onError\<close>, and each of the three fires at most once; \<open>onFailure\<close>
  and \<open>onError\<close> both fire only when \<open>onFailure\<close> itself has thrown, its exception being
  the one \<open>onError\<close> receives. In the version with \<open>reset\<close>, which has no \<open>onFailure\<close>,
  \<open>on_success\<close> and \<open>on_error\<close> never both fire.
\<close>

theorem outcome_callbacks_exclusive:
  assumes "T = trace (submitter env dest c data event flag)"
    and "T' = trace (submitter_reset env dest c' data event flag st)"
  shows "\<not> (fires KSuccess T \<and> fires KFailure T) \<and>
         \<not> (fires KSuccess T \<and> fires KError T) \<and>
         (fires KFailure T \<and> fires KError T \<longrightarrow>
            (\<exists>f d r e. onFailure c = Some f \<and> f d r = Some e \<and>
               OnFailure d r \<in> set T \<and> OnError e \<in> set T)) \<and>
         count_kind KSuccess T \<le> 1 \<and> count_kind KFailure T \<le> 1 \<and> count_kind KError T \<le> 1 \<and>
         \<not> fires KFailure T' \<and> \<not> (fires KSuccess T' \<and> fires KError T') \<and>
         count_kind KSuccess T' \<le> 1 \<and> count_kind KError T' \<le> 1"
proof -
  obtain pre E where T: "T = pre @ E" and q: "quiet pre"
    and E: "E = [] \<or> (\<exists>td. E = snd (snd (try_statement env dest c td)))"
    using submitter_trace_split[of env dest c data event flag] assms(1) by auto
  have PE: "\<not> (fires KSuccess E \<and> fires KFailure E) \<and>
         \<not> (fires KSuccess E \<and> fires KError E) \<and>
         (fires KFailure E \<and> fires KError E \<longrightarrow>
            (\<exists>f d r e. onFailure c = Some f \<and> f d r = Some e \<and>
               OnFailure d r \<in> set E \<and> OnError e \<in> set E)) \<and>
         count_kind KSuccess E \<le> 1 \<and> count_kind KFailure E \<le> 1 \<and> count_kind KError E \<le> 1"
    using E
  proof
    assume "E = []"
    then show ?thesis by simp
  next
    assume "\<exists>td. E = snd (snd (try_statement env dest c td))"
    then obtain td where "E = snd (snd (try_statement env dest c td))" ..
    then show ?thesis using try_statement_exclusive[of env dest c td] by simp
  qed
  note first = exclusive_lift[OF q PE, folded T]
  obtain pre' E' where T': "T' = pre' @ E'" and q': "quiet pre'"
    and E': "E' = [] \<or> (\<exists>td. E' = snd (snd (snd (try_statement_reset env dest c' data td st))))"
    using submitter_reset_trace_split[of env dest c' data event flag st] assms(2) by auto
  have PE': "\<not> fires KFailure E' \<and> \<not> (fires KSuccess E' \<and> fires KError E') \<and>
         count_kind KSuccess E' \<le> 1 \<and> count_kind KError E' \<le> 1"
    using E'
  proof
    assume "E' = []"
    then show ?thesis by simp
  next
    assume "\<exists>td. E' = snd (snd (snd (try_statement_reset env dest c' data td st)))"
    then obtain td where "E' = snd (snd (snd (try_statement_reset env dest c' data td st)))" ..
    then show ?thesis using try_statement_reset_exclusive[of env dest c' data td st] by simp
  qed
  have second: "\<not> fires KFailure T' \<and> \<not> (fires KSuccess T' \<and> fires KError T') \<and>
         count_kind KSuccess T' \<le> 1 \<and> count_kind KError T' \<le> 1"
    using PE' quiet_fires[OF q'] quiet_counts[OF q'] by (simp add: T')
  from first second show ?thesis by simp
qed

theorem outcome_callbacks_exclusive_witness:
  "fires KFailure (trace (submitter (platform_of True (Inr (Some \<lparr>ok = False, status = 400\<rparr>)))
      (Endpoint ''/api'') params_Nir input_Nir False False)) \<and>
   \<not> fires KSuccess (trace (submitter (platform_of True (Inr (Some \<lparr>ok = False, status = 400\<rparr>)))
      (Endpoint ''/api'') params_Nir input_Nir False False)) \<and>
   \<not> fires KError (trace (submitter (platform_of True (Inr (Some \<lparr>ok = False, status = 400\<rparr>)))
      (Endpoint ''/api'') params_Nir input_Nir False False)) \<and>
   count_kind KFailure (trace (submitter (platform_of True (Inr (Some \<lparr>ok = False, status = 400\<rparr>)))
      (Endpoint ''/api'') params_Nir input_Nir False False)) \<le> 1 \<and>
   fires KError (trace (submitter_reset (platform_of True (Inl (VStr ''offline'')))
      (Endpoint ''/api'') params_reset_Nir input_Nir False False store_Nir)) \<and>
   \<not> fires KSuccess (trace (submitter_reset (platform_of True (Inl (VStr ''offline'')))
      (Endpoint ''/api'') params_reset_Nir input_Nir False False store_Nir))"
proof -
  have a: "fires KFailure (trace (submitter (platform_of True (Inr (Some \<lparr>ok = False, status = 400\<rparr>)))
      (Endpoint ''/api'') params_Nir input_Nir False False))"
    by (simp add: run_not_ok)
  have b: "fires KError (trace (submitter_reset (platform_of True (Inl (VStr ''offline'')))
      (Endpoint ''/api'') params_reset_Nir input_Nir False False store_Nir))"
    by (simp add: run_reset_rejected_fetch)
  have c: "\<not> fires KError (trace (submitter (platform_of True (Inr (Some \<lparr>ok = False, status = 400\<rparr>)))
      (Endpoint ''/api'') params_Nir input_Nir False False))"
    by (simp add: run_not_ok)
  from a b c
    outcome_callbacks_exclusive[OF refl refl,
      where env = "platform_of True (Inr (Some \<lparr>ok = False, status = 400\<rparr>))"
        and dest = "Endpoint ''/api''" and c = params_Nir and data = input_Nir
        and event = False and flag = False and c' = params_reset_Nir and st = store_Nir]
    outcome_callbacks_exclusive[OF refl refl,
      where env = "platform_of True (Inl (VStr ''offline''))"
        and dest = "Endpoint ''/api''" and c = params_Nir and data = input_Nir
        and event = False and flag = False and c' = params_reset_Nir and st = store_Nir]
  show ?thesis by blast
qed

text \<open>
  The claim as stated fails: the destination returns \<open>false\<close>, \<open>onFailure\<close> is called inside
  the \<open>try\<close> block and throws, and \<open>onError\<close> is called in the same call.
\<close>

theorem onFailure_and_onError_both_fire:
  "fires KFailure (trace (submitter (platform_of True (Inr None)) (Action (\<lambda>d. Inr False))
      (params_Nir\<lparr>onFailure := Some (\<lambda>d r. Some (VStr ''boom''))\<rparr>) input_Nir False False)) \<and>
   fires KError (trace (submitter (platform_of True (Inr None)) (Action (\<lambda>d. Inr False))
      (params_Nir\<lparr>onFailure := Some (\<lambda>d r. Some (VStr ''boom''))\<rparr>) input_Nir False False)) \<and>
   trace (submitter (platform_of True (Inr None)) (Action (\<lambda>d. Inr False))
      (params_Nir\<lparr>onFailure := Some (\<lambda>d r. Some (VStr ''boom''))\<rparr>) input_Nir False False) =
     [Destination [(''age'', VNum 31)], OnFailure input_Nir None, OnError (VStr ''boom'')]"
  by (simp add: run_throwing_onFailure)

text \<open>
  Claim C4. When a confirmation message is set (a non-empty string, so that the prompt is
  shown) and the user declines, the call returns at once: its promise resolves, the flag
  keeps its value, and the only events are \<open>preventDefault\<close>, the call of \<open>transform\<close> that
  precedes the prompt, and the prompt. Neither \<open>fetch\<close> nor the destination callback is
  called, and none of \<open>onSuccess\<close>, \<open>onFailure\<close>, \<open>onError\<close>, \<open>mutate\<close> fires.
\<close>

theorem declined_confirmation_aborts:
  assumes "apply_transform (transform c) data = (Inr td, evs1)"
    and "confirmation c = Some msg" and "msg \<noteq> []" and "\<not> confirm env msg"
  shows "submitter env dest c data event flag =
           \<lparr>promise = Resolved, isFailed = flag,
            trace = (if event then [PreventDefault] else []) @ evs1 @ [Prompt msg]\<rparr> \<and>
         quiet (trace (submitter env dest c data event flag)) \<and>
         \<not> fires KFetch (trace (submitter env dest c data event flag)) \<and>
         \<not> fires KDestination (trace (submitter env dest c data event flag))"
proof -
  have g: "declined env (confirmation c) = (True, [Prompt msg])"
    using assms(2-4) by (simp add: declined_def)
  have s: "submitter env dest c data event flag =
           \<lparr>promise = Resolved, isFailed = flag,
            trace = (if event then [PreventDefault] else []) @ evs1 @ [Prompt msg]\<rparr>"
    using assms(1) g by (simp add: submitter_def Let_def)
  from kinds_apply_transform[OF assms(1)] have "evs1 = [] \<or> evs1 = [Transform data]" .
  then have "quiet ((if event then [PreventDefault] else []) @ evs1 @ [Prompt msg]) \<and>
      \<not> fires KFetch ((if event then [PreventDefault] else []) @ evs1 @ [Prompt msg]) \<and>
      \<not> fires KDestination ((if event then [PreventDefault] else []) @ evs1 @ [Prompt msg])"
    by (auto simp: quiet_def)
  with s show ?thesis by simp
qed

theorem declined_confirmation_aborts_witness:
  "apply_transform (transform (params_Nir\<lparr>confirmation := Some ''Sure?''\<rparr>)) input_Nir
     = (Inr input_Nir, []) \<and>
   ''Sure?'' \<noteq> [] \<and> \<not> confirm (platform_of False (Inr None)) ''Sure?'' \<and>
   submitter (platform_of False (Inr None)) (Endpoint ''/api'')
     (params_Nir\<lparr>confirmation := Some ''Sure?''\<rparr>) input_Nir True True =
   \<lparr>promise = Resolved, isFailed = True, trace = [PreventDefault, Prompt ''Sure?'']\<rparr>"
proof -
  have t: "apply_transform (transform (params_Nir\<lparr>confirmation := Some ''Sure?''\<rparr>)) input_Nir
     = (Inr input_Nir, [])"
    by (simp add: apply_transform_def params_Nir_def)
  have m: "confirmation (params_Nir\<lparr>confirmation := Some ''Sure?''\<rparr>) = Some ''Sure?''" by simp
  have n: "''Sure?'' \<noteq> []" by simp
  have a: "\<not> confirm (platform_of False (Inr None)) ''Sure?''" by (simp add: platform_of_def)
  from declined_confirmation_aborts[OF t m n a, of "Endpoint ''/api''" True True] t n a
  show ?thesis by simp
qed

text \<open>
  Claim C5. When the dispatch returns without an exception and \<open>submitOk\<close> is false (a
  response that is not ok, or a destination callback that returned \<open>false\<close>), the flag is
  set to true, \<open>onFailure\<close> (when there is one) is called once with the transformed data
  and the response (\<open>None\<close> for a callback destination), and neither \<open>onSuccess\<close> nor
  \<open>mutate\<close> is called.
\<close>

theorem non_success_fires_onFailure_only:
  assumes "apply_transform (transform c) data = (Inr td, evs1)"
    and "declined env (confirmation c) = (False, evs2)"
    and "dispatch env dest (method c) (fetchOptions c) (defaultValues c) td = (None, l, evs3)"
    and "\<not> submitOk l"
    and "r = submitter env dest c data event flag"
  shows "isFailed r \<and>
         (\<forall>f. onFailure c = Some f \<longrightarrow>
            OnFailure td (response l) \<in> set (trace r) \<and> count_kind KFailure (trace r) = 1) \<and>
         \<not> fires KSuccess (trace r) \<and> \<not> fires KMutate (trace r)"
proof -
  let ?tail = "case onFailure c of None \<Rightarrow> []
                    | Some f \<Rightarrow> OnFailure td (response l) #
                        (case f td (response l) of None \<Rightarrow> []
                         | Some e \<Rightarrow> (case onError c of None \<Rightarrow> [] | Some h \<Rightarrow> [OnError e]))"
  let ?pre = "(if event then [PreventDefault] else []) @ evs1 @ evs2 @ evs3"
  have q: "quiet ?pre"
    using quiet_apply_transform[OF assms(1)] quiet_declined[OF assms(2)] quiet_dispatch[OF assms(3)]
    by simp
  have r: "isFailed r" "trace r = ?pre @ ?tail"
    using submitter_proceeds[OF assms(1,2), of dest event flag]
      try_statement_not_ok[OF assms(3,4)] assms(5) by simp_all
  have tail: "\<not> fires KSuccess ?tail \<and> \<not> fires KMutate ?tail \<and>
      (\<forall>f. onFailure c = Some f \<longrightarrow>
            OnFailure td (response l) \<in> set ?tail \<and> count_kind KFailure ?tail = 1)"
    by (simp split: option.splits)
  from tail quiet_fires[OF q] quiet_counts[OF q] r show ?thesis by simp
qed

theorem non_success_fires_onFailure_only_witness:
  "isFailed (submitter (platform_of True (Inr (Some \<lparr>ok = False, status = 400\<rparr>)))
      (Endpoint ''/api'') params_Nir input_Nir False False) \<and>
   OnFailure input_Nir (Some \<lparr>ok = False, status = 400\<rparr>) \<in> set (trace (submitter
      (platform_of True (Inr (Some \<lparr>ok = False, status = 400\<rparr>)))
      (Endpoint ''/api'') params_Nir input_Nir False False)) \<and>
   \<not> fires KSuccess (trace (submitter (platform_of True (Inr (Some \<lparr>ok = False, status = 400\<rparr>)))
      (Endpoint ''/api'') params_Nir input_Nir False False)) \<and>
   \<not> fires KMutate (trace (submitter (platform_of True (Inr (Some \<lparr>ok = False, status = 400\<rparr>)))
      (Endpoint ''/api'') params_Nir input_Nir False False))"
proof -
  let ?env = "platform_of True (Inr (Some \<lparr>ok = False, status = 400\<rparr>))"
  have t: "apply_transform (transform params_Nir) input_Nir = (Inr input_Nir, [])"
    by (simp add: apply_transform_def params_Nir_def)
  have g: "declined ?env (confirmation params_Nir) = (False, [])"
    by (simp add: declined_def params_Nir_def)
  have d: "dispatch ?env (Endpoint ''/api'') (method params_Nir) (fetchOptions params_Nir)
             (defaultValues params_Nir) input_Nir =
           (None, \<lparr>submitOk = False, response = Some \<lparr>ok = False, status = 400\<rparr>\<rparr>,
            [Fetch ''/api'' [(''method'', Plain (VStr ''POST'')), (''body'', Payload [(''age'', VStr ''31'')])]])"
    by (simp add: run_defs)
  have n: "\<not> submitOk \<lparr>submitOk = False, response = Some \<lparr>ok = False, status = 400\<rparr>\<rparr>" by simp
  have f: "onFailure params_Nir = Some (\<lambda>d r. None)" by (simp add: params_Nir_def)
  from non_success_fires_onFailure_only[OF t g d n refl, of False False] f
  show ?thesis by simp
qed

section \<open>The request sent to an endpoint\<close>

lemma spread_foldl_lookup:
  "map_of (foldl (\<lambda>acc kv. AList.update (fst kv) (Plain (snd kv)) acc) init fo) k =
     (case map_of (rev fo) k of None \<Rightarrow> map_of init k | Some v \<Rightarrow> Some (Plain v))"
proof (induction fo rule: rev_induct)
  case Nil
  then show ?case by simp
next
  case (snoc x xs)
  then show ?case by (cases x) (simp add: update_conv')
qed

lemma map_of_rev_absent: "k \<notin> fst ` set fo \<Longrightarrow> map_of (rev fo) k = None"
  by (simp add: map_of_eq_None_iff)

lemma map_of_rev_present:
  "distinct (map fst fo) \<Longrightarrow> (k, v) \<in> set fo \<Longrightarrow> map_of (rev fo) k = Some v"
  by (rule map_of_is_SomeI) (simp_all add: rev_map[symmetric])

lemma fetch_init_method:
  "(case opts of None \<Rightarrow> True | Some fo \<Rightarrow> ''method'' \<notin> fst ` set fo) \<Longrightarrow>
   map_of (fetch_init m fd opts) ''method'' =
     Some (Plain (VStr (case m of None \<Rightarrow> ''POST'' | Some x \<Rightarrow> x)))"
  by (cases opts) (simp_all add: fetch_init_def spread_def spread_foldl_lookup map_of_rev_absent)

lemma fetch_init_body:
  "(case opts of None \<Rightarrow> True | Some fo \<Rightarrow> ''body'' \<notin> fst ` set fo) \<Longrightarrow>
   map_of (fetch_init m fd opts) ''body'' = Some (Payload fd)"
  by (cases opts) (simp_all add: fetch_init_def spread_def spread_foldl_lookup map_of_rev_absent)

lemma fetch_init_option:
  "distinct (map fst fo) \<Longrightarrow> (k, v) \<in> set fo \<Longrightarrow>
   map_of (fetch_init m fd (Some fo)) k = Some (Plain v)"
  by (simp add: fetch_init_def spread_def spread_foldl_lookup map_of_rev_present)

lemma try_statement_fetch_once:
  assumes "to_form_data_without_default (JSON_stringify env) td (defaultValues c) = Inr fd"
  shows "filter (\<lambda>ev. kind_of ev = KFetch) (snd (snd (try_statement env (Endpoint url) c td))) =
           [Fetch url (fetch_init (method c) fd (fetchOptions c))]"
proof -
  let ?init = "fetch_init (method c) fd (fetchOptions c)"
  note d = dispatch_endpoint[OF assms, of url "method c" "fetchOptions c"]
  show ?thesis
  proof (cases "fetch env url ?init")
    case (Inl e)
    with d have "dispatch env (Endpoint url) (method c) (fetchOptions c) (defaultValues c) td =
        (Some e, \<lparr>submitOk = False, response = None\<rparr>, [Fetch url ?init])" by simp
    from try_statement_thrown[OF this] show ?thesis by (simp split: option.splits)
  next
    case (Inr r)
    let ?l = "\<lparr>submitOk = (case r of None \<Rightarrow> False | Some x \<Rightarrow> ok x), response = r\<rparr>"
    from Inr d have dd: "dispatch env (Endpoint url) (method c) (fetchOptions c) (defaultValues c) td =
        (None, ?l, [Fetch url ?init])" by simp
    show ?thesis
    proof (cases "submitOk ?l")
      case True
      from try_statement_ok[OF dd True] show ?thesis by (simp split: option.splits)
    next
      case False
      from try_statement_not_ok[OF dd False] show ?thesis by (simp split: option.splits)
    qed
  qed
qed

text \<open>
  Claim C6, as amended. For an endpoint destination, once the confirmation has passed and
  the encoding has returned a payload, \<open>fetch\<close> is called exactly once, with the object
  \<open>{method, body: payload, ...fetchOptions}\<close>: its method is the \<open>method\<close> option
  (\<open>"POST"\<close> when absent) and its body the payload whenever \<open>fetchOptions\<close> has no entry of
  that name, and an entry of \<open>fetchOptions\<close> is sent as it is, in place of the method or of
  the payload too. When the response is ok, the flag becomes false and \<open>onSuccess\<close> (when
  there is one) is called with the transformed data and the response.
\<close>

theorem fetch_called_once_with_merged_init:
  assumes t: "apply_transform (transform c) data = (Inr td, evt)"
    and g: "declined env (confirmation c) = (False, evc)"
    and p: "to_form_data_without_default (JSON_stringify env) td (defaultValues c) = Inr fd"
    and i: "init = fetch_init (method c) fd (fetchOptions c)"
    and r: "r = submitter env (Endpoint url) c data event flag"
  shows "filter (\<lambda>ev. kind_of ev = KFetch) (trace r) = [Fetch url init] \<and>
         ((case fetchOptions c of None \<Rightarrow> True | Some fo \<Rightarrow> ''method'' \<notin> fst ` set fo) \<longrightarrow>
            map_of init ''method'' =
              Some (Plain (VStr (case method c of None \<Rightarrow> ''POST'' | Some x \<Rightarrow> x)))) \<and>
         ((case fetchOptions c of None \<Rightarrow> True | Some fo \<Rightarrow> ''body'' \<notin> fst ` set fo) \<longrightarrow>
            map_of init ''body'' = Some (Payload fd)) \<and>
         (\<forall>fo k v. fetchOptions c = Some fo \<longrightarrow> distinct (map fst fo) \<longrightarrow> (k, v) \<in> set fo \<longrightarrow>
            map_of init k = Some (Plain v)) \<and>
         (\<forall>resp. fetch env url init = Inr (Some resp) \<longrightarrow> ok resp \<longrightarrow>
            \<not> isFailed r \<and>
            (\<forall>f. onSuccess c = Some f \<longrightarrow> OnSuccess td (Some resp) \<in> set (trace r)))"
proof -
  have tr: "trace r = ((if event then [PreventDefault] else []) @ evt @ evc) @
                snd (snd (try_statement env (Endpoint url) c td))"
    and fl: "isFailed r = fst (snd (try_statement env (Endpoint url) c td))"
    using submitter_proceeds[OF t g, of "Endpoint url" event flag] r by simp_all
  have pre: "filter (\<lambda>ev. kind_of ev = KFetch) ((if event then [PreventDefault] else []) @ evt @ evc) = []"
    using kinds_apply_transform[OF t] kinds_declined[OF g] by auto
  have once: "filter (\<lambda>ev. kind_of ev = KFetch) (trace r) = [Fetch url init]"
    using pre try_statement_fetch_once[OF p, of url] by (simp add: tr i)
  have m: "(case fetchOptions c of None \<Rightarrow> True | Some fo \<Rightarrow> ''method'' \<notin> fst ` set fo) \<longrightarrow>
            map_of init ''method'' =
              Some (Plain (VStr (case method c of None \<Rightarrow> ''POST'' | Some x \<Rightarrow> x)))"
    unfolding i using fetch_init_method[of "fetchOptions c" "method c" fd] by blast
  have b: "(case fetchOptions c of None \<Rightarrow> True | Some fo \<Rightarrow> ''body'' \<notin> fst ` set fo) \<longrightarrow>
            map_of init ''body'' = Some (Payload fd)"
    unfolding i using fetch_init_body[of "fetchOptions c" "method c" fd] by blast
  have o: "\<forall>fo k v. fetchOptions c = Some fo \<longrightarrow> distinct (map fst fo) \<longrightarrow> (k, v) \<in> set fo \<longrightarrow>
            map_of init k = Some (Plain v)"
    unfolding i using fetch_init_option[of _ _ _ "method c" fd] by simp
  have s: "\<not> isFailed r \<and> (\<forall>f. onSuccess c = Some f \<longrightarrow> OnSuccess td (Some resp) \<in> set (trace r))"
    if f: "fetch env url init = Inr (Some resp)" and k: "ok resp" for resp
  proof -
    have d: "dispatch env (Endpoint url) (method c) (fetchOptions c) (defaultValues c) td =
        (None, \<lparr>submitOk = True, response = Some resp\<rparr>, [Fetch url init])"
      using dispatch_endpoint[OF p, of url "method c" "fetchOptions c"] f k by (simp add: i)
    have "submitOk \<lparr>submitOk = True, response = Some resp\<rparr>" by simp
    from try_statement_ok[OF d this] show ?thesis
      by (simp add: tr fl split: option.splits)
  qed
  from once m b o s show ?thesis by blast
qed

theorem fetch_called_once_with_merged_init_witness:
  "filter (\<lambda>ev. kind_of ev = KFetch)
     (trace (submitter (platform_of True (Inr (Some \<lparr>ok = True, status = 200\<rparr>)))
        (Endpoint ''/api'') params_Nir input_Nir False True)) =
     [Fetch ''/api'' [(''method'', Plain (VStr ''POST'')), (''body'', Payload [(''age'', VStr ''31'')])]] \<and>
   \<not> isFailed (submitter (platform_of True (Inr (Some \<lparr>ok = True, status = 200\<rparr>)))
        (Endpoint ''/api'') params_Nir input_Nir False True) \<and>
   OnSuccess input_Nir (Some \<lparr>ok = True, status = 200\<rparr>) \<in> set
     (trace (submitter (platform_of True (Inr (Some \<lparr>ok = True, status = 200\<rparr>)))
        (Endpoint ''/api'') params_Nir input_Nir False True))"
proof -
  let ?env = "platform_of True (Inr (Some \<lparr>ok = True, status = 200\<rparr>))"
  let ?fd = "[(''age'', VStr ''31'')]"
  let ?init = "[(''method'', Plain (VStr ''POST'')), (''body'', Payload ?fd)]"
  have t: "apply_transform (transform params_Nir) input_Nir = (Inr input_Nir, [])"
    by (simp add: apply_transform_def params_Nir_def)
  have g: "declined ?env (confirmation params_Nir) = (False, [])"
    by (simp add: declined_def params_Nir_def)
  have p: "to_form_data_without_default (JSON_stringify ?env) input_Nir (defaultValues params_Nir)
      = Inr ?fd"
    by (simp add: run_defs)
  have i: "?init = fetch_init (method params_Nir) ?fd (fetchOptions params_Nir)"
    by (simp add: fetch_init_def spread_def params_Nir_def)
  have f: "fetch ?env ''/api'' ?init = Inr (Some \<lparr>ok = True, status = 200\<rparr>)"
    by (simp add: platform_of_def)
  have k: "ok \<lparr>ok = True, status = 200\<rparr>" by simp
  have s: "onSuccess params_Nir = Some (\<lambda>d r. None)" by (simp add: params_Nir_def)
  from fetch_called_once_with_merged_init[OF t g p i refl, of "''/api''" False True] f k s
  show ?thesis by blast
qed

text \<open>
  The claim as stated fails: with no \<open>method\<close> option and
  \<open>fetchOptions = {method: "PUT", body: "raw"}\<close>, \<open>fetch\<close> is called with method \<open>"PUT"\<close>
  and body \<open>"raw"\<close>, not with \<open>"POST"\<close> and the encoded payload.
\<close>

theorem fetchOptions_override_method_and_body:
  "method (params_Nir\<lparr>fetchOptions := Some [(''method'', VStr ''PUT''), (''body'', VStr ''raw'')]\<rparr>) = None \<and>
   trace (submitter (platform_of True (Inr (Some \<lparr>ok = True, status = 200\<rparr>))) (Endpoint ''/api'')
      (params_Nir\<lparr>fetchOptions := Some [(''method'', VStr ''PUT''), (''body'', VStr ''raw'')]\<rparr>)
      input_Nir False False) =
     [Fetch ''/api'' [(''method'', Plain (VStr ''PUT'')), (''body'', Plain (VStr ''raw''))],
      OnSuccess input_Nir (Some \<lparr>ok = True, status = 200\<rparr>),
      Mutate (TransformedData input_Nir)] \<and>
   Fetch ''/api'' [(''method'', Plain (VStr ''POST'')), (''body'', Payload [(''age'', VStr ''31'')])]
     \<notin> set (trace (submitter (platform_of True (Inr (Some \<lparr>ok = True, status = 200\<rparr>)))
      (Endpoint ''/api'')
      (params_Nir\<lparr>fetchOptions := Some [(''method'', VStr ''PUT''), (''body'', VStr ''raw'')]\<rparr>)
      input_Nir False False))"
  by (simp add: run_defs)

section \<open>What \<open>mutate\<close> receives in the version with \<open>reset\<close>\<close>











text \<open>
  Claim C7 at the example of the specification, in the version with \<open>reset\<close>: baseline
  \<open>{name: "Nir", age: 30}\<close>, submitted \<open>{name: "Nir", age: 31}\<close>, a successful call. The
  object \<open>mutate\<close> receives still has \<open>age = 30\<close>: where both the old and the new value
  are defined, \<open>mutate_data\<close> keeps the old one. And where the submitted data has no
  \<open>age\<close>, the baseline's \<open>age\<close> is replaced by \<open>undefined\<close>.
\<close>

theorem mutate_data_keeps_stale_baseline:
  "obj_get input_Nir ''age'' = VNum 31 \<and>
   heap (submitter_reset (platform_of True (Inr (Some \<lparr>ok = True, status = 200\<rparr>))) (Endpoint ''/api'')
      params_reset_Nir input_Nir False True store_Nir) 0 = [(''name'', VStr ''Nir''), (''age'', VNum 30)] \<and>
   trace (submitter_reset (platform_of True (Inr (Some \<lparr>ok = True, status = 200\<rparr>))) (Endpoint ''/api'')
      params_reset_Nir input_Nir False True store_Nir) =
     [Fetch ''/api'' [(''method'', Plain (VStr ''POST'')), (''body'', Payload [(''age'', VStr ''31'')])],
      Reset None, OnSuccess input_Nir (Some \<lparr>ok = True, status = 200\<rparr>), Mutate (StoredObject 0)] \<and>
   fst (snd (mutate_data (\<lambda>d. None) [(''name'', VStr ''Nir'')] (Some 0) store_Nir)) 0 =
     [(''name'', VStr ''Nir''), (''age'', VUndefined)]"
proof -
  have a: "obj_get input_Nir ''age'' = VNum 31" by (simp add: input_Nir_def obj_get_def)
  have b: "store_Nir 0 = [(''name'', VStr ''Nir''), (''age'', VNum 30)]"
    by (simp add: store_Nir_def baseline_Nir_def)
  have c: "fst (snd (mutate_data (\<lambda>d. None) [(''name'', VStr ''Nir'')] (Some 0) store_Nir)) 0 =
     [(''name'', VStr ''Nir''), (''age'', VUndefined)]"
    by (simp add: mutate_data_def store_Nir_def baseline_Nir_def obj_get_def obj_set_def Let_def)
  from a b c show ?thesis by (simp add: run_reset_ok)
qed

end
